theory Spec2Isabelle
  imports Complex_Main "HOL-Library.Word"
begin
section \<open>Capture ring (common-sdl.cpp, class audio_async)\<close>

text \<open>
  Samples are 32-bit floats in the source. The pipeline only stores, copies and counts
  them, so a sample is modelled by its numeric value.
\<close>

type_synonym sample = real

text \<open>
  The fields of \<open>audio_async\<close>. \<open>m_dev_id_in\<close> is an \<open>SDL_AudioDeviceID\<close> (a 32-bit
  unsigned id, 0 meaning that no device is open), \<open>m_total_samples\<close> is a \<open>uint64_t\<close>.
  \<open>m_audio_pos\<close> and \<open>m_audio_len\<close> are \<open>size_t\<close> indices into \<open>m_audio\<close>; the class keeps
  \<open>m_audio_pos < m_audio.size()\<close> and \<open>m_audio_len \<le> m_audio.size()\<close>, and the ring size
  is computed in \<open>int\<close> arithmetic, so the index arithmetic never leaves the range of the
  C++ types and is written on \<open>nat\<close> and \<open>int\<close>.
\<close>

record audio_async =
  m_dev_id_in :: "32 word"
  m_len_ms :: int
  m_sample_rate :: int
  m_running :: bool
  m_audio :: "sample list"
  m_audio_pos :: nat
  m_audio_len :: nat
  m_total_samples :: "64 word"

text \<open>\<open>memcpy(&buf[pos], src, n * sizeof(float))\<close> with \<open>src\<close> holding \<open>n\<close> samples.\<close>

definition memcpy_at :: "sample list \<Rightarrow> nat \<Rightarrow> sample list \<Rightarrow> sample list" where
  "memcpy_at buf pos src = take pos buf @ src @ drop (pos + length src) buf"

text \<open>
  \<open>audio_async::callback(stream, len)\<close>. SDL delivers \<open>len\<close> bytes of \<open>AUDIO_F32\<close> data,
  that is the sample list \<open>stream\<close> with \<open>samples_in = length stream\<close>. The function
  computes \<open>(m_audio_pos + n_samples) % m_audio.size()\<close>; on an empty ring that is a
  division by zero, which is the result \<open>None\<close>.
\<close>

definition callback :: "audio_async \<Rightarrow> sample list \<Rightarrow> audio_async option" where
  "callback a stream =
     (if \<not> m_running a then Some a
      else
        let samples_in = length stream;
            size = length (m_audio a);
            stream' = (if samples_in > size then drop (samples_in - size) stream else stream);
            n_samples = (if samples_in > size then size else samples_in);
            pos = m_audio_pos a;
            audio' =
              (if pos + n_samples > size then
                 let n0 = size - pos
                 in memcpy_at (memcpy_at (m_audio a) pos (take n0 stream')) 0 (drop n0 stream')
               else memcpy_at (m_audio a) pos stream')
        in if size = 0 then None
           else Some (a\<lparr>m_audio := audio',
                        m_audio_pos := (pos + n_samples) mod size,
                        m_audio_len := min (m_audio_len a + n_samples) size,
                        m_total_samples := m_total_samples a + of_nat samples_in\<rparr>))"

text \<open>
  \<open>audio_async::get(ms, result, current_time_ms)\<close>. \<open>result\<close> and \<open>current_time_ms\<close> are
  reference parameters: the model takes the values the caller passes in and returns the
  values they hold when the function returns, together with the lines written to stderr.
  \<open>n_samples\<close> is computed in \<open>size_t\<close> (64-bit) arithmetic; the timeline in \<open>uint64_t\<close>
  arithmetic, then cast to \<open>int64_t\<close>.
\<close>

record get_result =
  result :: "sample list"
  current_time_ms :: int
  get_stderr :: "string list"

definition get :: "audio_async \<Rightarrow> int \<Rightarrow> sample list \<Rightarrow> int \<Rightarrow> get_result" where
  "get a ms result_in time_in =
     (if m_dev_id_in a = 0 then
        \<lparr>result = result_in, current_time_ms = time_in,
         get_stderr = [''get: no audio device to get audio from!'']\<rparr>
      else if \<not> m_running a then
        \<lparr>result = result_in, current_time_ms = time_in,
         get_stderr = [''get: not running!'']\<rparr>
      else
        let ms' = (if ms \<le> 0 then m_len_ms a else ms);
            wanted = unat (((word_of_int (m_sample_rate a) :: 64 word) * word_of_int ms') div 1000);
            n_samples = (if wanted > m_audio_len a then m_audio_len a else wanted);
            size = length (m_audio a);
            s0 = int (m_audio_pos a) - int n_samples;
            s0' = nat (if s0 < 0 then s0 + int size else s0);
            out =
              (if s0' + n_samples > size then
                 let n0 = size - s0'
                 in take n0 (drop s0' (m_audio a)) @ take (n_samples - n0) (m_audio a)
               else take n_samples (drop s0' (m_audio a)));
            t = (if m_sample_rate a > 0
                 then sint ((m_total_samples a * 1000) div (word_of_int (m_sample_rate a) :: 64 word))
                 else 0)
        in \<lparr>result = out, current_time_ms = t, get_stderr = []\<rparr>)"

text \<open>Two concrete rings used to evaluate the definitions.\<close>

definition ring_running :: audio_async where
  "ring_running =
     \<lparr>m_dev_id_in = 1, m_len_ms = 1, m_sample_rate = 16000, m_running = True,
      m_audio = [0, 0, 0, 0], m_audio_pos = 3, m_audio_len = 2, m_total_samples = 40\<rparr>"

definition ring_paused :: audio_async where
  "ring_paused = ring_running\<lparr>m_running := False\<rparr>"

section \<open>The transcriber (openflow_transcriber.cpp): data\<close>

text \<open>
  C++ integer division truncates towards zero. The pipeline's sample counters are
  \<open>int64_t\<close> and its sizes \<open>size_t\<close>; they count samples of one process run and stay far
  below \<open>2^63\<close>, so they are modelled by \<open>int\<close> and \<open>nat\<close>.
\<close>

definition cdiv :: "int \<Rightarrow> int \<Rightarrow> int" where
  "cdiv a b = sgn a * sgn b * (\<bar>a\<bar> div \<bar>b\<bar>)"

text \<open>
  Logits and bias magnitudes are \<open>float\<close>s (IEEE binary32) on which the code tests
  \<open>std::isfinite\<close>, so the non-finite values are part of the model. A finite value is
  modelled by its numeric value (the sign of zero is not kept).
\<close>

datatype cfloat = Fin real | PInf | MInf | NaN

fun isfinite :: "cfloat \<Rightarrow> bool" where
  "isfinite (Fin _) = True"
| "isfinite _ = False"

text \<open>The number of binary digits of a positive integer (0 for the others).\<close>

function bit_length :: "int \<Rightarrow> nat" where
  "bit_length n = (if n \<le> 0 then 0 else Suc (bit_length (n div 2)))"
  by pat_completeness auto
termination
  by (relation "measure nat") auto

declare bit_length.simps [simp del]

text \<open>Rounding of a non-negative quotient to the nearest integer, ties to even.\<close>

definition round_half_even :: "real \<Rightarrow> int" where
  "round_half_even y =
     (let f = \<lfloor>y\<rfloor>
      in if y - of_int f < 1 / 2 then f
         else if y - of_int f > 1 / 2 then f + 1
         else if even f then f else f + 1)"

text \<open>
  The binary32 value nearest to a real number (round to nearest, ties to even, the
  rounding mode in which the program runs). A binary32 number has a 24-bit significand
  and its smallest positive value is \<open>2^-149\<close>: for \<open>2^e \<le> |x| < 2^(e+1)\<close> the spacing
  of the representable values is \<open>2^(e-23)\<close>, and \<open>2^-149\<close> below \<open>2^-126\<close>. With \<open>b\<close> the
  number of binary digits of \<open>\<lfloor>|x| * 2^149\<rfloor>\<close> that spacing is \<open>2^(b - 24) / 2^149\<close> (the
  subtraction on \<open>nat\<close> stops at 0). A result of magnitude \<open>2^128\<close> or more is infinite.
\<close>

definition round32 :: "real \<Rightarrow> cfloat" where
  "round32 x =
     (let a = \<bar>x\<bar>;
          q = 2 ^ (bit_length \<lfloor>a * 2 ^ 149\<rfloor> - 24) / 2 ^ 149;
          r = of_int (round_half_even (a / q)) * q
      in if r \<ge> 2 ^ 128 then (if x > 0 then PInf else MInf) else Fin (sgn x * r))"

text \<open>
  Addition of two \<open>float\<close>s, as in \<open>logits[token_id] += bias\<close>: the exact sum of two
  finite values, rounded to binary32 (so it absorbs a small addend and overflows to
  infinity); the IEEE rules for the non-finite operands.
\<close>

fun fadd :: "cfloat \<Rightarrow> cfloat \<Rightarrow> cfloat" where
  "fadd (Fin a) (Fin b) = round32 (a + b)"
| "fadd NaN _ = NaN"
| "fadd _ NaN = NaN"
| "fadd PInf MInf = NaN"
| "fadd MInf PInf = NaN"
| "fadd PInf _ = PInf"
| "fadd _ PInf = PInf"
| "fadd MInf _ = MInf"
| "fadd _ MInf = MInf"

type_synonym whisper_token = int

text \<open>The fields of \<open>vad_params\<close> that the modelled code reads (\<open>log\<close> is \<open>log_opt\<close> here).\<close>

record vad_params =
  dictionary_path :: string
  dictionary_poll_ms :: int
  send_prompt :: bool
  bias_decoding :: bool
  bias_first_logit :: cfloat
  bias_continuation_logit :: cfloat
  beam_size :: int
  logits_top_k :: int
  logits_prob_threshold :: cfloat
  logits_prefix_text :: bool
  logits_boosted_k :: int
  log_opt :: bool
  emit_vad_events :: bool
  debug :: bool
  step_ms :: int
  start_threshold :: real
  stop_threshold :: real
  min_segment_ms :: int
  max_segment_ms :: int
  min_silence_ms :: int
  pre_padding_ms :: int
  post_padding_ms :: int

text \<open>The defaults of the struct.\<close>

definition default_params :: vad_params where
  "default_params =
     \<lparr>dictionary_path = '''', dictionary_poll_ms = 1000, send_prompt = True,
      bias_decoding = False, bias_first_logit = round32 0.35, bias_continuation_logit = round32 0.85,
      beam_size = 0, logits_top_k = 50, logits_prob_threshold = Fin 20,
      logits_prefix_text = False, logits_boosted_k = 24, log_opt = False,
      emit_vad_events = True, debug = False, step_ms = 200, start_threshold = 0.60,
      stop_threshold = 0.35, min_segment_ms = 250, max_segment_ms = 12000,
      min_silence_ms = 150, pre_padding_ms = 200, post_padding_ms = 350\<rparr>"

text \<open>The constants that \<open>main\<close> derives from the parameters.\<close>

definition sample_rate :: int where
  "sample_rate = 16000"

definition enable_partials :: "vad_params \<Rightarrow> bool" where
  "enable_partials P = (step_ms P \<ge> 0)"

definition step_samples :: "vad_params \<Rightarrow> int" where
  "step_samples P =
     (if enable_partials P then max 1 (cdiv (step_ms P * sample_rate) 1000) else 0)"

definition pre_padding_samples :: "vad_params \<Rightarrow> nat" where
  "pre_padding_samples P = nat (max 0 (cdiv (pre_padding_ms P * sample_rate) 1000))"

definition post_padding_samples :: "vad_params \<Rightarrow> nat" where
  "post_padding_samples P = nat (max 0 (cdiv (post_padding_ms P * sample_rate) 1000))"

definition min_silence_samples :: "vad_params \<Rightarrow> nat" where
  "min_silence_samples P = nat (max 0 (cdiv (min_silence_ms P * sample_rate) 1000))"

definition min_segment_samples :: "vad_params \<Rightarrow> nat" where
  "min_segment_samples P = nat (max 0 (cdiv (min_segment_ms P * sample_rate) 1000))"

definition max_segment_samples :: "vad_params \<Rightarrow> nat" where
  "max_segment_samples P = nat (max sample_rate (cdiv (max_segment_ms P * sample_rate) 1000))"

text \<open>\<open>SileroVadRunner::expected_chunk_size\<close>, the value of \<open>vad_chunk_samples\<close>.\<close>

definition vad_chunk_samples :: nat where
  "vad_chunk_samples = 512"

text \<open>
  The decode context handed to the logits callback. A null pointer to a dictionary index is
  \<open>None\<close>. (The \<open>b_\<close> prefix keeps the field names apart from the pipeline's.)
\<close>

record bias_decode_context =
  b_segment_index :: int
  b_partial_seq :: int
  b_is_final :: bool
  b_dict_token_seqs :: "whisper_token list list option"
  b_dict_first_tokens :: "whisper_token list option"
  b_dict_first_token_ids :: "int set option"
  b_dict_entries :: int
  b_dict_first_tokens_total :: int
  b_enabled :: bool
  b_bias_first_logit :: cfloat
  b_bias_continuation_logit :: cfloat
  b_logits_top_k :: int
  b_logits_prob_threshold :: cfloat
  b_logits_prefix_text :: bool
  b_logits_boosted_k :: int
  b_writer_enabled :: bool
  b_emit_stdout_packets :: bool

text \<open>
  What \<open>emit_transcription\<close> sets in \<open>whisper_full_params\<close> beyond constants: the sampling
  strategy, the beam size, the initial prompt and the callback's user data (\<open>None\<close> when no
  callback is installed).
\<close>

datatype sampling = WHISPER_SAMPLING_GREEDY | WHISPER_SAMPLING_BEAM_SEARCH

record whisper_full_params =
  strategy :: sampling
  wp_beam_size :: int
  initial_prompt :: "string option"
  logits_filter_callback_user_data :: "bias_decode_context option"

text \<open>
  The result of one \<open>whisper_full\<close> call: its return value, the \<open>logits\<close> lines that the
  callback printed to stdout during the decode, and the tokens \<open>(id, t0, t1)\<close> of each
  output segment.
\<close>

record whisper_result =
  wr_status :: int
  wr_packets :: "string list"
  wr_tokens :: "(whisper_token \<times> int \<times> int) list list"

text \<open>What one dictionary poll observes: the steady clock (in ns), the file's mtime or the
  error message of the query, and the file's contents (\<open>None\<close> when it cannot be opened).\<close>

record dict_io =
  io_now :: int
  io_mtime :: "string + int"
  io_file :: "string option"

text \<open>
  The acoustic model, the VAD network, the clock and the file system are outside the
  program. The \<open>n\<close>-th call of the VAD, of the decoder and of the dictionary poll gets its
  answer from the environment; the tokenizer and the vocabulary are fixed functions.
\<close>

record env =
  vad_infer :: "nat \<Rightarrow> sample list \<Rightarrow> real option"
  whisper_full :: "nat \<Rightarrow> whisper_full_params \<Rightarrow> sample list \<Rightarrow> whisper_result"
  whisper_full_default_beam_size :: "sampling \<Rightarrow> int"
  whisper_token_count :: "string \<Rightarrow> int"
  whisper_tokenize :: "string \<Rightarrow> nat \<Rightarrow> int \<times> whisper_token list"
  whisper_token_to_str :: "whisper_token \<Rightarrow> string option"
  poll_dict :: "nat \<Rightarrow> dict_io"

text \<open>The events written to stdout, and the lines written to stderr.\<close>

record piece =
  piece_text :: string
  t0_ms :: int
  t1_ms :: int
  leading_space :: bool

datatype event =
    Vad int real nat int
  | Dictionary int int bool bool bool bool string int int int int int
      "(string \<times> (int \<times> string) list) list"
  | Logits string
  | Segment int int int int real bool int string "piece list"
  | JobStart "string option"
  | JobEnd "string option"

datatype msg =
    VadInferenceFailed
  | WhisperFullFailed int bool
  | WarnClampBeamSize int int
  | DebugSegmentStart int int real
  | DebugDiscardShort nat
  | DebugForcedFlush int
  | DebugSilenceFlush int real
  | DebugDictionaryReload nat nat nat int

fun is_vad :: "event \<Rightarrow> bool" where
  "is_vad (Vad _ _ _ _) = True"
| "is_vad _ = False"

fun is_segment :: "event \<Rightarrow> bool" where
  "is_segment (Segment _ _ _ _ _ _ _ _ _) = True"
| "is_segment _ = False"

fun segment_final :: "event \<Rightarrow> bool" where
  "segment_final (Segment _ _ _ _ _ final _ _ _) = final"
| "segment_final _ = False"

fun segment_partial_seq :: "event \<Rightarrow> int" where
  "segment_partial_seq (Segment _ _ _ _ _ _ partial_seq _ _) = partial_seq"
| "segment_partial_seq _ = -1"

fun is_warn_clamp :: "msg \<Rightarrow> bool" where
  "is_warn_clamp (WarnClampBeamSize _ _) = True"
| "is_warn_clamp _ = False"

text \<open>The dictionary indices and their freshness state (locals of \<open>main\<close>).\<close>

record dictionary =
  dictionary_cache :: string
  dictionary_token_seqs :: "whisper_token list list"
  dictionary_entry_texts :: "string list"
  dictionary_first_tokens :: "whisper_token list"
  dictionary_first_token_ids :: "int set"
  last_dictionary_reload :: int
  last_dictionary_write_time :: int
  last_dictionary_entries_raw :: int
  last_dictionary_total_tokens :: int
  last_dictionary_error :: string

text \<open>
  The state of the pipeline: the locals of \<open>main\<close> that the lambdas capture, the numbers
  of calls made to the environment so far, and the two output streams.
\<close>

record pipeline =
  pending_samples :: "sample list"
  pre_roll :: "sample list"
  chunk_buffer :: "sample list"
  current_segment :: "sample list"
  segment_prob_sum :: real
  segment_prob_count :: int
  in_segment :: bool
  segment_start_sample :: int
  last_voice_sample :: int
  processed_samples_total :: int
  last_fetch_time_ms :: int
  segment_index :: int
  active_segment_index :: int
  partial_sequence :: int
  last_partial_emit_sample :: int
  dict :: dictionary
  warned_beam_size_clamp :: bool
  vad_calls :: nat
  decode_calls :: nat
  reload_calls :: nat
  stdout :: "event list"
  stderr :: "msg list"

section \<open>Dictionary manager\<close>

text \<open>\<open>std::isspace\<close> in the C locale: space and the control characters 9 to 13.\<close>

definition isspace :: "char \<Rightarrow> bool" where
  "isspace c = (c = CHR '' '' \<or> (9 \<le> (of_char c :: nat) \<and> (of_char c :: nat) \<le> 13))"

text \<open>\<open>is_control_piece\<close>: the first two characters after leading whitespace are \<open><|\<close> or \<open>[_\<close>.\<close>

definition is_control_piece :: "string \<Rightarrow> bool" where
  "is_control_piece s =
     (case dropWhile isspace s of
        a # b # _ \<Rightarrow> (a = CHR ''<'' \<and> b = CHR ''|'') \<or> (a = CHR ''['' \<and> b = CHR ''_'')
      | _ \<Rightarrow> False)"

text \<open>
  \<open>split_dictionary_entries\<close>: the lambda \<open>flush\<close> trims the current word and appends it
  when something is left; the first loop cuts the text at whitespace; the second loop
  drops empty and repeated entries, keeping the first occurrence.
\<close>

definition trim :: "string \<Rightarrow> string" where
  "trim cur = rev (dropWhile isspace (rev (dropWhile isspace cur)))"

definition flush_entry :: "string \<Rightarrow> string list \<Rightarrow> string list" where
  "flush_entry cur out =
     (if cur = [] then out else if trim cur \<noteq> [] then out @ [trim cur] else out)"

fun split_loop :: "string \<Rightarrow> string \<Rightarrow> string list \<Rightarrow> string list" where
  "split_loop [] cur out = flush_entry cur out"
| "split_loop (c # cs) cur out =
     (if isspace c then split_loop cs [] (flush_entry cur out)
      else split_loop cs (cur @ [c]) out)"

fun uniq_loop :: "string list \<Rightarrow> string set \<Rightarrow> string list \<Rightarrow> string list" where
  "uniq_loop [] seen uniq = uniq"
| "uniq_loop (s # ss) seen uniq =
     (if s = [] then uniq_loop ss seen uniq
      else if s \<notin> seen then uniq_loop ss (insert s seen) (uniq @ [s])
      else uniq_loop ss seen uniq)"

definition split_dictionary_entries :: "string \<Rightarrow> string list" where
  "split_dictionary_entries raw = uniq_loop (split_loop raw [] []) {} []"

text \<open>\<open>std::vector::resize\<close> on a vector of tokens: cut, or fill with zeros.\<close>

definition resize :: "whisper_token list \<Rightarrow> nat \<Rightarrow> whisper_token list" where
  "resize v n = take n v @ replicate (n - length v) 0"

text \<open>
  The body of the inner loop of the reload, for one text variant of one entry. The loop
  state is the dictionary under construction together with the locals \<open>first_seen\<close> and
  \<open>total_tokens\<close>. \<open>whisper_tokenize\<close> is given a buffer of \<open>n_needed\<close> tokens and answers
  with its return value and the buffer's contents.
\<close>

definition tokenize_variant ::
  "env \<Rightarrow> string \<Rightarrow> dictionary \<times> int set \<times> int \<Rightarrow> string \<Rightarrow> dictionary \<times> int set \<times> int" where
  "tokenize_variant E entry st text =
     (case st of (d, first_seen, total_tokens) \<Rightarrow>
        let n_needed = whisper_token_count E text
        in if n_needed \<le> 0 then st
           else
             let (n_got, buf) = whisper_tokenize E text (nat n_needed)
             in if n_got \<le> 0 then st
                else
                  let seq = resize (resize buf (nat n_needed)) (nat n_got);
                      total' = total_tokens + n_got;
                      fresh = (seq \<noteq> [] \<and> hd seq \<notin> first_seen);
                      d1 = (if fresh
                            then d\<lparr>dictionary_first_tokens := dictionary_first_tokens d @ [hd seq],
                                   dictionary_first_token_ids :=
                                     insert (hd seq) (dictionary_first_token_ids d)\<rparr>
                            else d);
                      first_seen' = (if fresh then insert (hd seq) first_seen else first_seen)
                  in (d1\<lparr>dictionary_entry_texts := dictionary_entry_texts d1 @ [entry],
                          dictionary_token_seqs := dictionary_token_seqs d1 @ [seq]\<rparr>,
                      first_seen', total'))"

definition variants :: "string \<Rightarrow> string list" where
  "variants entry = entry # (if hd entry \<noteq> CHR '' '' then [CHR '' '' # entry] else [])"

definition tokenize_entry ::
  "env \<Rightarrow> dictionary \<times> int set \<times> int \<Rightarrow> string \<Rightarrow> dictionary \<times> int set \<times> int" where
  "tokenize_entry E st entry =
     (if entry = [] then st else foldl (tokenize_variant E entry) st (variants entry))"

text \<open>
  \<open>emit_dictionary_event\<close>: the \<open>dictionary\<close> line for the current indices (the constant
  \<open>dictionary_file\<close> field and the JSON escaping are left out). The \<open>words\<close> sample is
  filled when \<open>--log\<close> or \<open>--debug\<close> is given.
\<close>

definition emit_dictionary_event ::
  "env \<Rightarrow> vad_params \<Rightarrow> dictionary \<Rightarrow> int \<Rightarrow> int \<Rightarrow> bool \<Rightarrow> bool \<Rightarrow> bool \<Rightarrow> event" where
  "emit_dictionary_event E P d segment_idx partial_seq is_final attempted reloaded =
     Dictionary segment_idx partial_seq is_final attempted reloaded
       (last_dictionary_error d = []) (last_dictionary_error d)
       (last_dictionary_entries_raw d)
       (int (length (dictionary_token_seqs d)))
       (int (length (dictionary_first_tokens d)))
       (last_dictionary_total_tokens d)
       (int (length (dictionary_cache d)))
       (if log_opt P \<or> debug P
        then map (\<lambda>(text, seq).
                    (text, map (\<lambda>tid. (tid, case whisper_token_to_str E tid of
                                                None \<Rightarrow> [] | Some tok \<Rightarrow> tok)) seq))
               (take 40 (zip (dictionary_entry_texts d) (dictionary_token_seqs d)))
        else [])"

fun dictionary_reloaded :: "event \<Rightarrow> bool" where
  "dictionary_reloaded (Dictionary _ _ _ _ reloaded _ _ _ _ _ _ _ _) = reloaded"
| "dictionary_reloaded _ = False"

fun is_dictionary :: "event \<Rightarrow> bool" where
  "is_dictionary (Dictionary _ _ _ _ _ _ _ _ _ _ _ _ _) = True"
| "is_dictionary _ = False"

text \<open>The block that every failure path of the reload repeats.\<close>

definition clear_dictionary :: "dictionary \<Rightarrow> string \<Rightarrow> dictionary" where
  "clear_dictionary d err =
     d\<lparr>last_dictionary_error := err, last_dictionary_entries_raw := 0,
       last_dictionary_total_tokens := 0, dictionary_cache := [],
       dictionary_token_seqs := [], dictionary_entry_texts := [],
       dictionary_first_tokens := [], dictionary_first_token_ids := {}\<rparr>"

text \<open>The indices rebuilt from the contents of the file (the tail of the reload).\<close>

definition rebuild_dictionary :: "env \<Rightarrow> dictionary \<Rightarrow> string \<Rightarrow> int \<Rightarrow> dictionary" where
  "rebuild_dictionary E d contents mtime =
     (let d0 = d\<lparr>dictionary_cache := contents, last_dictionary_write_time := mtime,
                 dictionary_token_seqs := [], dictionary_entry_texts := [],
                 dictionary_first_tokens := [], dictionary_first_token_ids := {}\<rparr>;
          entries = split_dictionary_entries contents;
          d1 = d0\<lparr>last_dictionary_entries_raw := int (length entries),
                   last_dictionary_error := []\<rparr>;
          (d2, first_seen, total_tokens) = foldl (tokenize_entry E) (d1, {}, 0) entries
      in d2\<lparr>last_dictionary_total_tokens := total_tokens\<rparr>)"

text \<open>
  \<open>reload_dictionary_if_needed\<close>, for what this poll observes (\<open>io\<close>). It returns the new
  indices with the lines it writes to stdout and stderr. The elapsed time is a
  \<open>duration_cast\<close> to milliseconds of a difference of steady-clock readings.
\<close>

definition reload_dictionary_if_needed ::
  "env \<Rightarrow> vad_params \<Rightarrow> dict_io \<Rightarrow> int \<Rightarrow> int \<Rightarrow> bool \<Rightarrow> bool \<Rightarrow> dictionary
     \<Rightarrow> dictionary \<times> event list \<times> msg list" where
  "reload_dictionary_if_needed E P io segment_idx partial_seq is_final force d =
     (if dictionary_path P = [] then
        (let d' = clear_dictionary d ''dictionary_file not set''
         in (d', [emit_dictionary_event E P d' segment_idx partial_seq is_final True True], []))
      else
        let now = io_now io;
            elapsed_ms = cdiv (now - last_dictionary_reload d) 1000000;
            should_reload = (force \<or> elapsed_ms \<ge> dictionary_poll_ms P)
        in if \<not> should_reload then (d, [], [])
           else
             let d1 = d\<lparr>last_dictionary_reload := now\<rparr>
             in case io_mtime io of
                  Inl ec \<Rightarrow>
                    (let d' = clear_dictionary d1 ec
                     in (d', [emit_dictionary_event E P d' segment_idx partial_seq is_final True True], []))
                | Inr mtime \<Rightarrow>
                    if \<not> force \<and> \<not> (mtime \<noteq> last_dictionary_write_time d1) then
                      (d1, [emit_dictionary_event E P d1 segment_idx partial_seq is_final True False], [])
                    else
                      (case io_file io of
                         None \<Rightarrow>
                           (let d' = clear_dictionary d1 ''failed to open dictionary_file''
                            in (d', [emit_dictionary_event E P d' segment_idx partial_seq is_final True True], []))
                       | Some contents \<Rightarrow>
                           (let d' = rebuild_dictionary E d1 contents mtime
                            in (d',
                                [emit_dictionary_event E P d' segment_idx partial_seq is_final True True],
                                (if debug P
                                 then [DebugDictionaryReload
                                         (length (split_dictionary_entries contents))
                                         (length (dictionary_token_seqs d'))
                                         (length (dictionary_first_tokens d'))
                                         (last_dictionary_total_tokens d')]
                                 else [])))))"

text \<open>The dictionary locals as \<open>main\<close> initialises them (\<open>time_point::min()\<close> is \<open>-2^63\<close>).\<close>

definition init_dictionary :: dictionary where
  "init_dictionary =
     \<lparr>dictionary_cache = [], dictionary_token_seqs = [], dictionary_entry_texts = [],
      dictionary_first_tokens = [], dictionary_first_token_ids = {},
      last_dictionary_reload = - (2 ^ 63), last_dictionary_write_time = - (2 ^ 63),
      last_dictionary_entries_raw = 0, last_dictionary_total_tokens = 0,
      last_dictionary_error = []\<rparr>"

text \<open>
  The invariant of the indices that claim C8 states: every sequence is non-empty and
  starts with a member of \<open>first_token_ids\<close>; the ordered list and the set have the same
  members, the list without repetition; the token total is the sum of the lengths.
\<close>

definition dict_invariant :: "dictionary \<Rightarrow> bool" where
  "dict_invariant d =
     ((\<forall>seq \<in> set (dictionary_token_seqs d). seq \<noteq> [] \<and> hd seq \<in> dictionary_first_token_ids d)
      \<and> set (dictionary_first_tokens d) = dictionary_first_token_ids d
      \<and> distinct (dictionary_first_tokens d)
      \<and> int (length (dictionary_first_tokens d)) = int (card (dictionary_first_token_ids d))
      \<and> last_dictionary_total_tokens d = (\<Sum>seq \<leftarrow> dictionary_token_seqs d. int (length seq)))"

section \<open>Logits bias callback\<close>

text \<open>
  The lambda \<open>add_bias\<close> of \<open>whisper_logits_filter_cb\<close>. \<open>logits\<close> is the array of
  \<open>n_vocab\<close> floats that the decoder passes; the function returns its new contents.
\<close>

definition add_bias :: "int \<Rightarrow> int \<Rightarrow> cfloat list \<Rightarrow> int \<Rightarrow> cfloat \<Rightarrow> cfloat list" where
  "add_bias n_vocab token_beg logits token_id bias =
     (if token_id < 0 \<or> token_id \<ge> n_vocab then logits
      else if token_beg > 0 \<and> token_id \<ge> token_beg then logits
      else if \<not> isfinite (logits ! nat token_id) then logits
      else logits[nat token_id := fadd (logits ! nat token_id) bias])"

text \<open>
  The loop \<open>for (l = max_l; l >= 1; --l)\<close>: the largest \<open>l\<close> not above the start value for
  which the last \<open>l\<close> prefix tokens equal the first \<open>l\<close> tokens of \<open>seq\<close>. It is started at
  \<open>min n_tokens (size seq - 1)\<close>, so the slices exist.
\<close>

fun find_match :: "whisper_token list \<Rightarrow> whisper_token list \<Rightarrow> nat \<Rightarrow> nat option" where
  "find_match tokens seq 0 = None"
| "find_match tokens seq (Suc l) =
     (if drop (length tokens - Suc l) tokens = take (Suc l) seq then Some (Suc l)
      else find_match tokens seq l)"

text \<open>
  \<open>boosted_cont[next_id] += bias\<close> on an \<open>unordered_map<int, float>\<close>: a missing key is
  created with value \<open>0.0f\<close> first.
\<close>

definition boosted_add :: "(int \<rightharpoonup> cfloat) \<Rightarrow> int \<Rightarrow> cfloat \<Rightarrow> (int \<rightharpoonup> cfloat)" where
  "boosted_add m k b = m(k \<mapsto> fadd (case m k of None \<Rightarrow> Fin 0 | Some v \<Rightarrow> v) b)"

text \<open>The body of the loop over the dictionary sequences (continuation boosts).\<close>

definition continuation_step ::
  "int \<Rightarrow> int \<Rightarrow> cfloat \<Rightarrow> whisper_token list \<Rightarrow> cfloat list \<times> (int \<rightharpoonup> cfloat) \<times> int list
     \<Rightarrow> whisper_token list \<Rightarrow> cfloat list \<times> (int \<rightharpoonup> cfloat) \<times> int list" where
  "continuation_step n_vocab token_beg kContinuationBias tokens st seq =
     (case st of (logits, boosted_cont, keys) \<Rightarrow>
        if length seq < 2 then st
        else
          (case find_match tokens seq (min (length tokens) (length seq - 1)) of
             None \<Rightarrow> st
           | Some l \<Rightarrow>
               let next_id = seq ! l
               in (add_bias n_vocab token_beg logits next_id kContinuationBias,
                   boosted_add boosted_cont next_id kContinuationBias,
                   keys @ [next_id])))"

text \<open>
  The part of \<open>whisper_logits_filter_cb\<close> that can write to \<open>logits\<close>: the continuation
  boosts, then the first-token boosts when no continuation was recorded. The result is
  the array after the call, the map \<open>boosted_cont\<close> and the counter
  \<open>boosted_first_total\<close>. The third component of the loop state lists the keys of
  \<open>boosted_cont\<close> in insertion order, so that \<open>boosted_cont.empty()\<close> can be computed.
  The rest of the function computes the diagnostic packet: it reads \<open>logits\<close> and assigns
  nowhere to it, and is not modelled.
\<close>

definition whisper_logits_filter_cb ::
  "int \<Rightarrow> int \<Rightarrow> whisper_token list \<Rightarrow> cfloat list \<Rightarrow> bias_decode_context
     \<Rightarrow> cfloat list \<times> (int \<rightharpoonup> cfloat) \<times> int" where
  "whisper_logits_filter_cb n_vocab token_beg tokens logits bctx =
     (if \<not> b_enabled bctx then (logits, Map.empty, 0)
      else if n_vocab \<le> 0 then (logits, Map.empty, 0)
      else
        let kFirstTokenBias = b_bias_first_logit bctx;
            kContinuationBias = b_bias_continuation_logit bctx;
            (logits1, boosted_cont, keys) =
              (case b_dict_token_seqs bctx of
                 None \<Rightarrow> (logits, Map.empty, [])
               | Some seqs \<Rightarrow>
                   foldl (continuation_step n_vocab token_beg kContinuationBias tokens)
                     (logits, Map.empty, []) seqs)
        in if keys = [] then
             (case b_dict_first_tokens bctx of
                None \<Rightarrow> (logits1, boosted_cont, 0)
              | Some firsts \<Rightarrow>
                  (foldl (\<lambda>lg tid. add_bias n_vocab token_beg lg tid kFirstTokenBias) logits1 firsts,
                   boosted_cont, int (length firsts)))
           else (logits1, boosted_cont, 0))"

text \<open>One guarded addition, the effect of one boost on the cell it targets.\<close>

definition boost_once :: "cfloat \<Rightarrow> cfloat \<Rightarrow> cfloat" where
  "boost_once b v = (if isfinite v then fadd v b else v)"

text \<open>The id that the continuation loop boosts for one sequence (none when the sequence
  is shorter than 2 or no suffix of the prefix matches), and the ids boosted over all
  sequences, in order.\<close>

definition seq_target :: "whisper_token list \<Rightarrow> whisper_token list \<Rightarrow> int list" where
  "seq_target tokens seq =
     (if length seq < 2 then []
      else (case find_match tokens seq (min (length tokens) (length seq - 1)) of
              None \<Rightarrow> [] | Some l \<Rightarrow> [seq ! l]))"

definition continuation_targets :: "whisper_token list \<Rightarrow> whisper_token list list \<Rightarrow> int list" where
  "continuation_targets tokens seqs = concat (map (seq_target tokens) seqs)"

text \<open>The ids that one call boosts and the magnitude it uses for them.\<close>

definition boost_plan :: "whisper_token list \<Rightarrow> bias_decode_context \<Rightarrow> int list \<times> cfloat" where
  "boost_plan tokens bctx =
     (let cont = (case b_dict_token_seqs bctx of None \<Rightarrow> [] | Some seqs \<Rightarrow> continuation_targets tokens seqs)
      in if cont \<noteq> [] then (cont, b_bias_continuation_logit bctx)
         else ((case b_dict_first_tokens bctx of None \<Rightarrow> [] | Some firsts \<Rightarrow> firsts),
               b_bias_first_logit bctx))"

section \<open>Decode orchestrator and segmentation state machine\<close>

text \<open>The pipeline's call of \<open>reload_dictionary_if_needed\<close>: the next poll of the
  environment, the new indices, and the lines written.\<close>

definition reload_dictionary ::
  "env \<Rightarrow> vad_params \<Rightarrow> int \<Rightarrow> int \<Rightarrow> bool \<Rightarrow> bool \<Rightarrow> pipeline \<Rightarrow> pipeline" where
  "reload_dictionary E P segment_idx partial_seq is_final force s =
     (case reload_dictionary_if_needed E P (poll_dict E (reload_calls s))
             segment_idx partial_seq is_final force (dict s) of
        (d', evs, errs) \<Rightarrow>
          s\<lparr>dict := d', reload_calls := Suc (reload_calls s),
            stdout := stdout s @ evs, stderr := stderr s @ errs\<rparr>)"

text \<open>\<open>std::clamp(v, lo, hi)\<close>.\<close>

definition clamp :: "int \<Rightarrow> int \<Rightarrow> int \<Rightarrow> int" where
  "clamp v lo hi = (if v < lo then lo else if hi < v then hi else v)"

definition kWhisperMaxDecoders :: int where
  "kWhisperMaxDecoders = 8"

text \<open>
  The part of \<open>emit_transcription\<close> between the dictionary reload and the call of
  \<open>whisper_full\<close>: it builds the decode parameters and, under \<open>--bias-decoding\<close>, the
  decode context and the clamped beam size. It returns the parameters, the new value of
  \<open>warned_beam_size_clamp\<close> and the warning written to stderr, if any.
\<close>

definition decode_params ::
  "env \<Rightarrow> vad_params \<Rightarrow> dictionary \<Rightarrow> bool \<Rightarrow> int \<Rightarrow> bool \<Rightarrow> int
     \<Rightarrow> whisper_full_params \<times> bool \<times> msg list" where
  "decode_params E P d warned segment_idx is_final partial_seq =
     (let strat = (if bias_decoding P then WHISPER_SAMPLING_BEAM_SEARCH else WHISPER_SAMPLING_GREEDY);
          prompt = (if send_prompt P \<and> dictionary_cache d \<noteq> []
                    then Some (take 4096 (dictionary_cache d)) else None)
      in if bias_decoding P then
           let bctx =
                 \<lparr>b_segment_index = segment_idx, b_partial_seq = partial_seq, b_is_final = is_final,
                  b_dict_token_seqs =
                    (if dictionary_token_seqs d \<noteq> [] then Some (dictionary_token_seqs d) else None),
                  b_dict_first_tokens =
                    (if dictionary_first_tokens d \<noteq> [] then Some (dictionary_first_tokens d) else None),
                  b_dict_first_token_ids =
                    (if dictionary_first_token_ids d \<noteq> {} then Some (dictionary_first_token_ids d) else None),
                  b_dict_entries = last_dictionary_entries_raw d,
                  b_dict_first_tokens_total = int (length (dictionary_first_tokens d)),
                  b_enabled = True,
                  b_bias_first_logit = bias_first_logit P,
                  b_bias_continuation_logit = bias_continuation_logit P,
                  b_logits_top_k = logits_top_k P,
                  b_logits_prob_threshold = logits_prob_threshold P,
                  b_logits_prefix_text = logits_prefix_text P,
                  b_logits_boosted_k = logits_boosted_k P,
                  b_writer_enabled = False,
                  b_emit_stdout_packets = (log_opt P \<or> debug P)\<rparr>;
               requested_beam = (if beam_size P > 0 then beam_size P
                                 else whisper_full_default_beam_size E strat);
               clamped_beam = clamp requested_beam 2 kWhisperMaxDecoders;
               warn = (requested_beam \<noteq> clamped_beam \<and> \<not> warned)
           in (\<lparr>strategy = strat, wp_beam_size = clamped_beam, initial_prompt = prompt,
                logits_filter_callback_user_data = Some bctx\<rparr>,
               (if warn then True else warned),
               (if warn then [WarnClampBeamSize requested_beam clamped_beam] else []))
         else
           (\<lparr>strategy = strat, wp_beam_size = whisper_full_default_beam_size E strat,
             initial_prompt = prompt, logits_filter_callback_user_data = None\<rparr>,
            warned, []))"

text \<open>The token loop of \<open>emit_transcription\<close>: the pieces of the \<open>segment\<close> event.\<close>

definition token_piece :: "env \<Rightarrow> int \<Rightarrow> whisper_token \<times> int \<times> int \<Rightarrow> piece list" where
  "token_piece E segment_start_ms td =
     (case td of (tid, t0, t1) \<Rightarrow>
        (case whisper_token_to_str E tid of
           None \<Rightarrow> []
         | Some pc \<Rightarrow>
             if is_control_piece pc then []
             else [\<lparr>piece_text = pc,
                    t0_ms = (if t0 \<ge> 0 then segment_start_ms + t0 * 10 else -1),
                    t1_ms = (if t1 \<ge> 0 then segment_start_ms + t1 * 10 else -1),
                    leading_space = (pc \<noteq> [] \<and> isspace (hd pc))\<rparr>]))"

definition segment_event ::
  "env \<Rightarrow> whisper_result \<Rightarrow> sample list \<Rightarrow> int \<Rightarrow> int \<Rightarrow> bool \<Rightarrow> real \<Rightarrow> int \<Rightarrow> event" where
  "segment_event E r audio_segment segment_idx segment_start_sample' is_final avg_prob_now partial_seq =
     (let segment_start_ms = cdiv (segment_start_sample' * 1000) sample_rate;
          segment_end_ms = segment_start_ms + cdiv (int (length audio_segment) * 1000) sample_rate;
          duration_ms = max 0 (segment_end_ms - segment_start_ms);
          pieces = concat (map (token_piece E segment_start_ms) (concat (wr_tokens r)))
      in Segment segment_idx segment_start_ms segment_end_ms duration_ms avg_prob_now is_final
           partial_seq (concat (map piece_text pieces)) pieces)"

text \<open>
  \<open>emit_transcription\<close>. Nothing happens on an empty buffer. Otherwise the dictionary is
  polled, the decoder runs, and a \<open>segment\<close> line is printed unless \<open>whisper_full\<close>
  returns non-zero.
\<close>

definition emit_transcription ::
  "env \<Rightarrow> vad_params \<Rightarrow> sample list \<Rightarrow> int \<Rightarrow> int \<Rightarrow> bool \<Rightarrow> real \<Rightarrow> int \<Rightarrow> pipeline \<Rightarrow> pipeline" where
  "emit_transcription E P audio_segment segment_idx segment_start_sample' is_final avg_prob_now
       partial_seq s =
     (if audio_segment = [] then s
      else
        let s1 = reload_dictionary E P segment_idx partial_seq is_final False s
        in case decode_params E P (dict s1) (warned_beam_size_clamp s1) segment_idx is_final partial_seq of
             (wparams, warned', warnings) \<Rightarrow>
               let s2 = s1\<lparr>warned_beam_size_clamp := warned', stderr := stderr s1 @ warnings\<rparr>;
                   r = whisper_full E (decode_calls s2) wparams audio_segment;
                   s3 = s2\<lparr>decode_calls := Suc (decode_calls s2),
                           stdout := stdout s2 @ map Logits (wr_packets r)\<rparr>
               in if wr_status r \<noteq> 0 then
                    s3\<lparr>stderr := stderr s3 @ [WhisperFullFailed segment_idx is_final]\<rparr>
                  else
                    s3\<lparr>stdout := stdout s3 @
                         [segment_event E r audio_segment segment_idx segment_start_sample'
                            is_final avg_prob_now partial_seq]\<rparr>)"

text \<open>The loop that moves samples into the pre-roll deque, dropping from the front
  whenever the deque grows beyond \<open>pre_padding_samples\<close>.\<close>

fun push_pre_roll :: "nat \<Rightarrow> sample list \<Rightarrow> sample list \<Rightarrow> sample list" where
  "push_pre_roll cap pre [] = pre"
| "push_pre_roll cap pre (x # xs) =
     push_pre_roll cap (if length (pre @ [x]) > cap then tl (pre @ [x]) else pre @ [x]) xs"

text \<open>The number of samples that \<open>flush_segment\<close> keeps.\<close>

definition keep_samples :: "vad_params \<Rightarrow> bool \<Rightarrow> pipeline \<Rightarrow> nat" where
  "keep_samples P forced_flush s =
     (if forced_flush then length (current_segment s)
      else
        let wanted_end_sample = last_voice_sample s + int (post_padding_samples P);
            wanted_end_sample' = (if wanted_end_sample < segment_start_sample s
                                  then segment_start_sample s else wanted_end_sample);
            desired = nat (max 0 (wanted_end_sample' - segment_start_sample s))
        in if desired > length (current_segment s) then length (current_segment s) else desired)"

definition flush_segment :: "env \<Rightarrow> vad_params \<Rightarrow> bool \<Rightarrow> pipeline \<Rightarrow> pipeline" where
  "flush_segment E P forced_flush s =
     (if \<not> in_segment s \<or> current_segment s = [] then
        s\<lparr>current_segment := [], segment_prob_sum := 0, segment_prob_count := 0,
          in_segment := False\<rparr>
      else
        let keep = keep_samples P forced_flush s
        in if keep < min_segment_samples P then
             s\<lparr>stderr := stderr s @ (if debug P then [DebugDiscardShort keep] else []),
               current_segment := [], segment_prob_sum := 0, segment_prob_count := 0,
               in_segment := False, pre_roll := []\<rparr>
           else
             let audio_segment = take keep (current_segment s);
                 leftover = (if keep < length (current_segment s)
                             then drop keep (current_segment s) else []);
                 avg_prob = (if segment_prob_count s > 0
                             then segment_prob_sum s / real_of_int (segment_prob_count s) else 0);
                 s1 = emit_transcription E P audio_segment
                        (if active_segment_index s \<ge> 0 then active_segment_index s
                         else segment_index s)
                        (segment_start_sample s) True avg_prob (partial_sequence s) s
             in s1\<lparr>pre_roll := push_pre_roll (pre_padding_samples P) [] leftover,
                   current_segment := [], segment_prob_sum := 0, segment_prob_count := 0,
                   in_segment := False, partial_sequence := 0, last_partial_emit_sample := 0,
                   active_segment_index := -1, segment_index := segment_index s1 + 1,
                   segment_start_sample := processed_samples_total s1,
                   last_voice_sample := processed_samples_total s1\<rparr>)"

text \<open>
  The body of the loop of \<open>process_pending_chunks\<close> is modelled block by block. A chunk
  is popped from the queue into \<open>chunk_buffer\<close> and given to the VAD.
\<close>

definition pop_chunk :: "pipeline \<Rightarrow> pipeline" where
  "pop_chunk s =
     s\<lparr>chunk_buffer := take vad_chunk_samples (pending_samples s),
       pending_samples := drop vad_chunk_samples (pending_samples s),
       vad_calls := Suc (vad_calls s)\<rparr>"

text \<open>After a successful inference the chunk is counted and reported.\<close>

definition chunk_end_ms :: "pipeline \<Rightarrow> int" where
  "chunk_end_ms s = cdiv (processed_samples_total s * 1000) sample_rate"

definition count_chunk :: "vad_params \<Rightarrow> real \<Rightarrow> pipeline \<Rightarrow> pipeline" where
  "count_chunk P prob s =
     (let s' = s\<lparr>processed_samples_total := processed_samples_total s + int vad_chunk_samples\<rparr>
      in s'\<lparr>stdout := stdout s' @
              (if emit_vad_events P
               then [Vad (chunk_end_ms s') prob vad_chunk_samples sample_rate] else [])\<rparr>)"

text \<open>The branch \<open>!in_segment && prob >= start_threshold\<close>: a new utterance opens.\<close>

definition start_segment :: "vad_params \<Rightarrow> real \<Rightarrow> pipeline \<Rightarrow> pipeline" where
  "start_segment P prob s =
     (let start = max 0 (processed_samples_total s - int (length (pre_roll s))
                           - int vad_chunk_samples)
      in s\<lparr>stderr := stderr s @
              (if debug P then [DebugSegmentStart (segment_index s) (chunk_end_ms s) prob] else []),
            current_segment := pre_roll s @ chunk_buffer s,
            segment_start_sample := start,
            active_segment_index := segment_index s,
            partial_sequence := 0,
            last_partial_emit_sample := start,
            pre_roll := [],
            last_voice_sample := processed_samples_total s,
            segment_prob_sum := prob,
            segment_prob_count := 1,
            in_segment := True\<rparr>)"

text \<open>The branch \<open>in_segment\<close>, first part: the chunk joins the utterance.\<close>

definition append_chunk :: "vad_params \<Rightarrow> real \<Rightarrow> pipeline \<Rightarrow> pipeline" where
  "append_chunk P prob s =
     s\<lparr>current_segment := current_segment s @ chunk_buffer s,
       segment_prob_sum := segment_prob_sum s + prob,
       segment_prob_count := segment_prob_count s + 1,
       last_voice_sample :=
         (if prob \<ge> stop_threshold P then processed_samples_total s else last_voice_sample s)\<rparr>"

text \<open>Second part: the partial hypothesis, when one is due.\<close>

definition current_segment_end_sample :: "pipeline \<Rightarrow> int" where
  "current_segment_end_sample s = segment_start_sample s + int (length (current_segment s))"

definition partial_due :: "vad_params \<Rightarrow> pipeline \<Rightarrow> bool" where
  "partial_due P s =
     (enable_partials P
      \<and> length (current_segment s) \<ge> min_segment_samples P
      \<and> current_segment_end_sample s - last_partial_emit_sample s \<ge> step_samples P)"

definition emit_partial :: "env \<Rightarrow> vad_params \<Rightarrow> pipeline \<Rightarrow> pipeline" where
  "emit_partial E P s =
     (if partial_due P s then
        let avg_prob_now = (if segment_prob_count s > 0
                            then segment_prob_sum s / real_of_int (segment_prob_count s) else 0);
            s' = emit_transcription E P (current_segment s)
                   (if active_segment_index s \<ge> 0 then active_segment_index s
                    else segment_index s)
                   (segment_start_sample s) False avg_prob_now (partial_sequence s) s
        in s'\<lparr>last_partial_emit_sample := current_segment_end_sample s,
              partial_sequence := partial_sequence s' + 1\<rparr>
      else s)"

text \<open>Third part: the forced flush at the maximum length, or the flush after silence.\<close>

definition over_max :: "vad_params \<Rightarrow> pipeline \<Rightarrow> bool" where
  "over_max P s =
     (processed_samples_total s - segment_start_sample s \<ge> int (max_segment_samples P))"

definition silence_flush_due :: "vad_params \<Rightarrow> pipeline \<Rightarrow> bool" where
  "silence_flush_due P s =
     (processed_samples_total s - last_voice_sample s \<ge> int (min_silence_samples P)
      \<and> processed_samples_total s - last_voice_sample s \<ge> int (post_padding_samples P))"

definition end_of_segment :: "env \<Rightarrow> vad_params \<Rightarrow> real \<Rightarrow> pipeline \<Rightarrow> pipeline" where
  "end_of_segment E P prob s =
     (if over_max P s then
        flush_segment E P True
          (s\<lparr>stderr := stderr s @ (if debug P then [DebugForcedFlush (segment_index s)] else [])\<rparr>)
      else if silence_flush_due P s then
        flush_segment E P False
          (s\<lparr>stderr := stderr s @
               (if debug P then [DebugSilenceFlush (segment_index s) prob] else [])\<rparr>)
      else s)"

text \<open>The last branch: while inactive, the chunk goes to the pre-roll.\<close>

definition pre_roll_chunk :: "vad_params \<Rightarrow> pipeline \<Rightarrow> pipeline" where
  "pre_roll_chunk P s =
     s\<lparr>pre_roll := push_pre_roll (pre_padding_samples P) (pre_roll s) (chunk_buffer s)\<rparr>"

text \<open>The state machine for one chunk with probability \<open>prob\<close>.\<close>

definition segment_chunk :: "env \<Rightarrow> vad_params \<Rightarrow> real \<Rightarrow> pipeline \<Rightarrow> pipeline" where
  "segment_chunk E P prob s =
     (if \<not> in_segment s \<and> prob \<ge> start_threshold P then start_segment P prob s
      else if in_segment s then end_of_segment E P prob (emit_partial E P (append_chunk P prob s))
      else pre_roll_chunk P s)"

text \<open>The whole loop body. An exception of the VAD is logged and the chunk is skipped.\<close>

definition process_chunk :: "env \<Rightarrow> vad_params \<Rightarrow> pipeline \<Rightarrow> pipeline" where
  "process_chunk E P s =
     (case vad_infer E (vad_calls s) (take vad_chunk_samples (pending_samples s)) of
        None \<Rightarrow> (pop_chunk s)\<lparr>stderr := stderr (pop_chunk s) @ [VadInferenceFailed]\<rparr>
      | Some prob \<Rightarrow> segment_chunk E P prob (count_chunk P prob (pop_chunk s)))"

text \<open>Neither the decode nor the flush touches the queue of pending samples or the VAD
  call count, so every pass of the loop removes exactly one chunk from the queue.\<close>

lemma reload_dictionary_pending [simp]:
  "pending_samples (reload_dictionary E P i q f force s) = pending_samples s"
  "vad_calls (reload_dictionary E P i q f force s) = vad_calls s"
  by (simp_all add: reload_dictionary_def split: prod.splits)

lemma emit_transcription_pending [simp]:
  "pending_samples (emit_transcription E P a i st f avg q s) = pending_samples s"
  "vad_calls (emit_transcription E P a i st f avg q s) = vad_calls s"
  by (simp_all add: emit_transcription_def Let_def split: prod.splits)

lemma flush_segment_pending [simp]:
  "pending_samples (flush_segment E P forced s) = pending_samples s"
  "vad_calls (flush_segment E P forced s) = vad_calls s"
  by (simp_all add: flush_segment_def Let_def)

lemma segment_chunk_pending [simp]:
  "pending_samples (segment_chunk E P prob s) = pending_samples s"
  "vad_calls (segment_chunk E P prob s) = vad_calls s"
  by (simp_all add: segment_chunk_def start_segment_def end_of_segment_def emit_partial_def
        append_chunk_def pre_roll_chunk_def Let_def)

lemma process_chunk_pending [simp]:
  "pending_samples (process_chunk E P s) = drop vad_chunk_samples (pending_samples s)"
  by (simp add: process_chunk_def pop_chunk_def count_chunk_def Let_def split: option.splits)

lemma process_chunk_vad_calls [simp]:
  "vad_calls (process_chunk E P s) = Suc (vad_calls s)"
  by (simp add: process_chunk_def pop_chunk_def count_chunk_def Let_def split: option.splits)

text \<open>\<open>process_pending_chunks\<close>: the loop runs while the queue holds a whole chunk.\<close>

function process_pending_chunks :: "env \<Rightarrow> vad_params \<Rightarrow> pipeline \<Rightarrow> pipeline" where
  "process_pending_chunks E P s =
     (if length (pending_samples s) \<ge> vad_chunk_samples
      then process_pending_chunks E P (process_chunk E P s)
      else s)"
  by pat_completeness auto
termination
  by (relation "measure (\<lambda>(E, P, s). length (pending_samples s))")
     (auto simp: vad_chunk_samples_def)

declare process_pending_chunks.simps [simp del]

text \<open>\<open>reset_segment_state\<close>.\<close>

definition reset_segment_state :: "pipeline \<Rightarrow> pipeline" where
  "reset_segment_state s =
     s\<lparr>pending_samples := [], pre_roll := [], chunk_buffer := [], current_segment := [],
       segment_prob_sum := 0, segment_prob_count := 0, in_segment := False,
       segment_start_sample := 0, last_voice_sample := 0, processed_samples_total := 0,
       last_fetch_time_ms := 0, segment_index := 0, active_segment_index := -1,
       partial_sequence := 0, last_partial_emit_sample := 0\<rparr>"

text \<open>The locals of \<open>main\<close> as they are initialised, with nothing written yet.\<close>

definition init_pipeline :: pipeline where
  "init_pipeline =
     \<lparr>pending_samples = [], pre_roll = [], chunk_buffer = [], current_segment = [],
      segment_prob_sum = 0, segment_prob_count = 0, in_segment = False,
      segment_start_sample = 0, last_voice_sample = 0, processed_samples_total = 0,
      last_fetch_time_ms = 0, segment_index = 0, active_segment_index = -1,
      partial_sequence = 0, last_partial_emit_sample = 0, dict = init_dictionary,
      warned_beam_size_clamp = False, vad_calls = 0, decode_calls = 0, reload_calls = 0,
      stdout = [], stderr = []\<rparr>"

text \<open>The forced reload that \<open>main\<close> performs before any audio is read.\<close>

definition startup :: "env \<Rightarrow> vad_params \<Rightarrow> pipeline" where
  "startup E P = reload_dictionary E P (-1) (-1) False True init_pipeline"

text \<open>
  The zero padding of the queue to a whole number of chunks, and the block that the
  offline mode and the stdin-audio mode share: queue the decoded file, pad, run the
  loop, and force a flush.
\<close>

definition pad_pending :: "pipeline \<Rightarrow> pipeline" where
  "pad_pending s =
     (let rem = length (pending_samples s) mod vad_chunk_samples
      in if rem \<noteq> 0
         then s\<lparr>pending_samples := pending_samples s @ replicate (vad_chunk_samples - rem) 0\<rparr>
         else s)"

definition run_audio_file :: "env \<Rightarrow> vad_params \<Rightarrow> sample list \<Rightarrow> pipeline \<Rightarrow> pipeline" where
  "run_audio_file E P offline_pcm s =
     flush_segment E P True
       (process_pending_chunks E P
          (pad_pending (s\<lparr>pending_samples := pending_samples s @ offline_pcm\<rparr>)))"

text \<open>The offline mode of \<open>main\<close>, for the samples decoded from \<open>--audio-file\<close>.\<close>

definition main_offline :: "env \<Rightarrow> vad_params \<Rightarrow> sample list \<Rightarrow> pipeline" where
  "main_offline E P offline_pcm = run_audio_file E P offline_pcm (startup E P)"

text \<open>One pass of the stdin-audio loop, for a line naming a readable file.\<close>

definition stdin_audio_job :: "env \<Rightarrow> vad_params \<Rightarrow> string \<Rightarrow> sample list \<Rightarrow> pipeline \<Rightarrow> pipeline" where
  "stdin_audio_job E P line offline_pcm s =
     (let s1 = reset_segment_state s;
          s2 = s1\<lparr>stdout := stdout s1 @ [JobStart (Some line)]\<rparr>;
          s3 = run_audio_file E P offline_pcm s2
      in s3\<lparr>stdout := stdout s3 @ [JobEnd (Some line)]\<rparr>)"

text \<open>The stdin-pcm mode's handling of a \<open>J\<close> message with \<open>n > 0\<close> samples: the samples
  are queued and the loop runs, with no padding.\<close>

definition stdin_pcm_samples :: "env \<Rightarrow> vad_params \<Rightarrow> sample list \<Rightarrow> pipeline \<Rightarrow> pipeline" where
  "stdin_pcm_samples E P samples s =
     process_pending_chunks E P (s\<lparr>pending_samples := pending_samples s @ samples\<rparr>)"

section \<open>Beam size and the clamp warning\<close>

text \<open>The beam that a decode asks for: \<open>--beam-size\<close>, or the decoder's default for beam
  search when the option is 0.\<close>

definition requested_beam :: "env \<Rightarrow> vad_params \<Rightarrow> int" where
  "requested_beam E P =
     (if beam_size P > 0 then beam_size P
      else whisper_full_default_beam_size E WHISPER_SAMPLING_BEAM_SEARCH)"

text \<open>The parameters that the decode run by \<open>emit_transcription\<close> from state \<open>s\<close> hands to
  \<open>whisper_full\<close>: those built after the dictionary has been polled.\<close>

definition decode_wparams ::
  "env \<Rightarrow> vad_params \<Rightarrow> int \<Rightarrow> bool \<Rightarrow> int \<Rightarrow> pipeline \<Rightarrow> whisper_full_params" where
  "decode_wparams E P segment_idx is_final partial_seq s =
     fst (decode_params E P (dict (reload_dictionary E P segment_idx partial_seq is_final False s))
            (warned_beam_size_clamp s) segment_idx is_final partial_seq)"

text \<open>The number of clamp warnings on stderr, and the invariant that ties it to the flag
  \<open>warned_beam_size_clamp\<close>: the warning has been written exactly when the flag is set, the
  flag is set only by a decode, and after a biased decode whose beam had to be clamped
  it is set.\<close>

definition clamp_warnings :: "pipeline \<Rightarrow> nat" where
  "clamp_warnings s = length (filter is_warn_clamp (stderr s))"

definition warn_inv :: "env \<Rightarrow> vad_params \<Rightarrow> pipeline \<Rightarrow> bool" where
  "warn_inv E P s =
     (clamp_warnings s = (if warned_beam_size_clamp s then 1 else 0)
      \<and> (bias_decoding P \<and> decode_calls s > 0
           \<and> requested_beam E P \<noteq> clamp (requested_beam E P) 2 kWhisperMaxDecoders
          \<longrightarrow> warned_beam_size_clamp s)
      \<and> (warned_beam_size_clamp s \<longrightarrow> decode_calls s > 0))"


text \<open>A concrete environment and parameters with \<open>--bias-decoding --beam-size 12\<close>, used to
  evaluate the definitions: the VAD hears silence, every decode succeeds with no tokens,
  and the dictionary file holds one word.\<close>

definition env_quiet :: env where
  "env_quiet =
     \<lparr>vad_infer = (\<lambda>n chunk. Some 0),
      whisper_full = (\<lambda>n wparams audio. \<lparr>wr_status = 0, wr_packets = [], wr_tokens = []\<rparr>),
      whisper_full_default_beam_size =
        (\<lambda>strat. if strat = WHISPER_SAMPLING_BEAM_SEARCH then 5 else -1),
      whisper_token_count = (\<lambda>text. int (length text)),
      whisper_tokenize = (\<lambda>text n. (int (length text), map (\<lambda>c. of_char c) text)),
      whisper_token_to_str = (\<lambda>tid. None),
      poll_dict = (\<lambda>n. \<lparr>io_now = int n * 2000000000, io_mtime = Inr 1,
                          io_file = Some ''openflow''\<rparr>)\<rparr>"

text \<open>An environment whose decoder refuses a beam above 8, as \<open>whisper_full\<close> does
  (\<open>too many decoders requested\<close>).\<close>

definition env_beam_cap :: env where
  "env_beam_cap = env_quiet\<lparr>whisper_full :=
     (\<lambda>n wparams audio.
        \<lparr>wr_status = (if wp_beam_size wparams > 8 then 1 else 0), wr_packets = [],
         wr_tokens = []\<rparr>)\<rparr>"

definition params_beam12 :: vad_params where
  "params_beam12 = default_params\<lparr>bias_decoding := True, beam_size := 12\<rparr>"

section \<open>Dictionary invariant: auxiliary definitions\<close>

text \<open>The invariant of the tokenization loop: the invariant of the indices, with the
  locals \<open>first_seen\<close> and \<open>total_tokens\<close> in step with them.\<close>

definition build_inv :: "dictionary \<times> int set \<times> int \<Rightarrow> bool" where
  "build_inv st =
     (case st of (d, first_seen, total_tokens) \<Rightarrow>
        (\<forall>seq \<in> set (dictionary_token_seqs d). seq \<noteq> [] \<and> hd seq \<in> dictionary_first_token_ids d)
        \<and> set (dictionary_first_tokens d) = dictionary_first_token_ids d
        \<and> distinct (dictionary_first_tokens d)
        \<and> first_seen = dictionary_first_token_ids d
        \<and> total_tokens = (\<Sum>seq \<leftarrow> dictionary_token_seqs d. int (length seq)))"


text \<open>A loaded dictionary (the file holds the word \<open>hi\<close>, read at mtime 1 and polled at
  time 0), parameters naming a dictionary file, and two polls that find the file
  unchanged: one 500 ms after the last poll, one 2 s after it.\<close>

definition dict_example :: dictionary where
  "dict_example =
     \<lparr>dictionary_cache = ''hi'', dictionary_token_seqs = [[104, 105], [32, 104, 105]],
      dictionary_entry_texts = [''hi'', ''hi''], dictionary_first_tokens = [104, 32],
      dictionary_first_token_ids = {104, 32}, last_dictionary_reload = 0,
      last_dictionary_write_time = 1, last_dictionary_entries_raw = 1,
      last_dictionary_total_tokens = 5, last_dictionary_error = []\<rparr>"

definition params_dict :: vad_params where
  "params_dict = default_params\<lparr>dictionary_path := ''dict.txt''\<rparr>"

definition io_early :: dict_io where
  "io_early = \<lparr>io_now = 500000000, io_mtime = Inr 1, io_file = Some ''hi''\<rparr>"

definition io_late :: dict_io where
  "io_late = \<lparr>io_now = 2000000000, io_mtime = Inr 1, io_file = Some ''hi''\<rparr>"

section \<open>Frames and silence: auxiliary definitions\<close>

text \<open>An environment is silent for the parameters when every VAD inference succeeds with
  a probability below the start threshold. The \<open>vad\<close> events are counted; the \<open>segment\<close>
  events are listed.\<close>

definition silent :: "env \<Rightarrow> vad_params \<Rightarrow> bool" where
  "silent E P = (\<forall>n chunk. \<exists>p. vad_infer E n chunk = Some p \<and> p < start_threshold P)"

definition vad_events :: "pipeline \<Rightarrow> nat" where
  "vad_events s = length (filter is_vad (stdout s))"

definition segment_events :: "pipeline \<Rightarrow> event list" where
  "segment_events s = filter is_segment (stdout s)"



text \<open>
  The input of a file in the words of claim C10: the samples followed by zeros up to the
  next multiple of 512; its frames, the consecutive slices of 512 samples; the \<open>vad\<close>
  lines that the inferences on a list of frames produce, when the first of them is the
  \<open>n\<close>-th call of the VAD and \<open>counted\<close> samples have been counted before (a frame on
  which the VAD fails prints nothing and is not counted); and the number of frames on
  which the inference succeeds.
\<close>

definition padded :: "sample list \<Rightarrow> sample list" where
  "padded pcm = pcm @ replicate ((512 - length pcm mod 512) mod 512) 0"

definition frames :: "sample list \<Rightarrow> sample list list" where
  "frames xs = map (\<lambda>k. take 512 (drop (512 * k) xs)) [0..<length xs div 512]"

fun vad_trace :: "env \<Rightarrow> nat \<Rightarrow> int \<Rightarrow> sample list list \<Rightarrow> event list" where
  "vad_trace E n counted [] = []"
| "vad_trace E n counted (fr # frs) =
     (case vad_infer E n fr of
        None \<Rightarrow> vad_trace E (Suc n) counted frs
      | Some prob \<Rightarrow>
          Vad (cdiv ((counted + 512) * 1000) sample_rate) prob 512 sample_rate
            # vad_trace E (Suc n) (counted + 512) frs)"

fun frames_inferred :: "env \<Rightarrow> nat \<Rightarrow> sample list list \<Rightarrow> nat" where
  "frames_inferred E n [] = 0"
| "frames_inferred E n (fr # frs) =
     (case vad_infer E n fr of None \<Rightarrow> 0 | Some prob \<Rightarrow> 1) + frames_inferred E (Suc n) frs"

text \<open>The \<open>vad\<close> lines on stdout.\<close>

definition vad_lines :: "pipeline \<Rightarrow> event list" where
  "vad_lines s = filter is_vad (stdout s)"

text \<open>An environment whose VAD answers with the mean of the frame it is given.\<close>

definition env_probe :: env where
  "env_probe = env_quiet\<lparr>vad_infer := (\<lambda>n chunk. Some (sum_list chunk / 512))\<rparr>"


section \<open>Logits bias callback: a concrete decode context\<close>

text \<open>A context whose dictionary holds the sequences \<open>[7, 1]\<close>, \<open>[7, 2]\<close> and \<open>[4]\<close>, with the
  default bias magnitudes \<open>0.35f\<close> and \<open>0.85f\<close>.\<close>

definition bctx_example :: bias_decode_context where
  "bctx_example =
     \<lparr>b_segment_index = 0, b_partial_seq = 0, b_is_final = True,
      b_dict_token_seqs = Some [[7, 1], [7, 2], [4]],
      b_dict_first_tokens = Some [7, 4],
      b_dict_first_token_ids = Some {7, 4},
      b_dict_entries = 2, b_dict_first_tokens_total = 2, b_enabled = True,
      b_bias_first_logit = round32 0.35, b_bias_continuation_logit = round32 0.85,
      b_logits_top_k = 50, b_logits_prob_threshold = Fin 20, b_logits_prefix_text = False,
      b_logits_boosted_k = 24, b_writer_enabled = False, b_emit_stdout_packets = False\<rparr>"

text \<open>A context in which two sequences, \<open>[7, 1]\<close> and \<open>[7, 1, 3]\<close>, continue the prefix \<open>[7]\<close>
  with the same token, with a given continuation bias.\<close>

definition bctx_shared :: "cfloat \<Rightarrow> bias_decode_context" where
  "bctx_shared b =
     bctx_example\<lparr>b_dict_token_seqs := Some [[7, 1], [7, 1, 3]],
                   b_dict_first_tokens := Some [7],
                   b_dict_first_token_ids := Some {7},
                   b_dict_first_tokens_total := 1,
                   b_bias_continuation_logit := b\<rparr>"

section \<open>Utterances: auxiliary definitions\<close>

fun segment_avg_vad :: "event \<Rightarrow> real" where
  "segment_avg_vad (Segment _ _ _ _ avg_vad _ _ _ _) = avg_vad"
| "segment_avg_vad _ = 0"

fun segment_duration_ms :: "event \<Rightarrow> int" where
  "segment_duration_ms (Segment _ _ _ duration_ms _ _ _ _ _) = duration_ms"
| "segment_duration_ms _ = 0"

text \<open>
  The kept length of a natural flush in the words of the specification: the first
  \<open>min (buffer length) (max (last_voice_sample + post_padding_samples) start_sample - start_sample)\<close>
  samples of the utterance buffer.
\<close>

definition natural_keep :: "vad_params \<Rightarrow> pipeline \<Rightarrow> nat" where
  "natural_keep P s =
     min (length (current_segment s))
       (nat (max (last_voice_sample s + int (post_padding_samples P)) (segment_start_sample s)
             - segment_start_sample s))"

text \<open>The answer of the acoustic model to the decode that \<open>emit_transcription\<close> runs from
  state \<open>s\<close> on the buffer \<open>audio_segment\<close>.\<close>

definition decode_result ::
  "env \<Rightarrow> vad_params \<Rightarrow> sample list \<Rightarrow> int \<Rightarrow> bool \<Rightarrow> int \<Rightarrow> pipeline \<Rightarrow> whisper_result" where
  "decode_result E P audio_segment segment_idx is_final partial_seq s =
     whisper_full E (decode_calls s)
       (fst (decode_params E P (dict (reload_dictionary E P segment_idx partial_seq is_final False s))
               (warned_beam_size_clamp s) segment_idx is_final partial_seq))
       audio_segment"

text \<open>The identity and the mean probability that the decodes of the current utterance
  report, the \<open>segment\<close> event that a flush prints, and the condition under which it does.\<close>

definition utterance_index :: "pipeline \<Rightarrow> int" where
  "utterance_index s =
     (if active_segment_index s \<ge> 0 then active_segment_index s else segment_index s)"

definition avg_prob :: "pipeline \<Rightarrow> real" where
  "avg_prob s =
     (if segment_prob_count s > 0
      then segment_prob_sum s / real_of_int (segment_prob_count s) else 0)"

definition final_result :: "env \<Rightarrow> vad_params \<Rightarrow> bool \<Rightarrow> pipeline \<Rightarrow> whisper_result" where
  "final_result E P forced_flush s =
     decode_result E P (take (keep_samples P forced_flush s) (current_segment s))
       (utterance_index s) True (partial_sequence s) s"

definition final_event :: "env \<Rightarrow> vad_params \<Rightarrow> bool \<Rightarrow> pipeline \<Rightarrow> event" where
  "final_event E P forced_flush s =
     segment_event E (final_result E P forced_flush s)
       (take (keep_samples P forced_flush s) (current_segment s))
       (utterance_index s) (segment_start_sample s) True (avg_prob s) (partial_sequence s)"

definition final_emitted :: "env \<Rightarrow> vad_params \<Rightarrow> bool \<Rightarrow> pipeline \<Rightarrow> bool" where
  "final_emitted E P forced_flush s =
     (in_segment s \<and> current_segment s \<noteq> []
      \<and> \<not> keep_samples P forced_flush s < min_segment_samples P
      \<and> 0 < keep_samples P forced_flush s
      \<and> wr_status (final_result E P forced_flush s) = 0)"

text \<open>The decode of a partial hypothesis from state \<open>s\<close>, and the event it prints.\<close>

definition partial_result :: "env \<Rightarrow> vad_params \<Rightarrow> pipeline \<Rightarrow> whisper_result" where
  "partial_result E P s =
     decode_result E P (current_segment s) (utterance_index s) False (partial_sequence s) s"

definition partial_event :: "env \<Rightarrow> vad_params \<Rightarrow> pipeline \<Rightarrow> event" where
  "partial_event E P s =
     segment_event E (partial_result E P s) (current_segment s) (utterance_index s)
       (segment_start_sample s) False (avg_prob s) (partial_sequence s)"

definition all_decodes_ok :: "env \<Rightarrow> bool" where
  "all_decodes_ok E = (\<forall>n wparams audio. wr_status (whisper_full E n wparams audio) = 0)"

text \<open>The \<open>partial_seq\<close> values of the partial events of a list of events, and its final
  events.\<close>

definition partial_seqs :: "event list \<Rightarrow> int list" where
  "partial_seqs evs = map segment_partial_seq (filter (\<lambda>e. is_segment e \<and> \<not> segment_final e) evs)"

definition final_events :: "event list \<Rightarrow> event list" where
  "final_events evs = filter (\<lambda>e. is_segment e \<and> segment_final e) evs"

text \<open>
  The life of one utterance, from the state \<open>s\<close> in which it has just been opened, as a
  sequence of the steps that \<open>main\<close> takes on the pipeline state: samples arrive in the
  queue; while the utterance is active the loop body runs on a queue that holds a whole
  chunk; the end of the input (or the \<open>E\<close> message of the stdin-pcm mode) forces a flush;
  a new job resets the segment state; and the job markers are printed. The loop body is
  not run once the utterance is over: its next voiced chunk would open another utterance.
\<close>

inductive utterance_run :: "env \<Rightarrow> vad_params \<Rightarrow> pipeline \<Rightarrow> pipeline \<Rightarrow> bool"
  for E :: env and P :: vad_params and s :: pipeline where
    opened: "utterance_run E P s s"
  | samples: "utterance_run E P s s' \<Longrightarrow>
              utterance_run E P s (s'\<lparr>pending_samples := pending_samples s' @ xs\<rparr>)"
  | chunk: "utterance_run E P s s' \<Longrightarrow> in_segment s' \<Longrightarrow>
            vad_chunk_samples \<le> length (pending_samples s') \<Longrightarrow>
            utterance_run E P s (process_chunk E P s')"
  | flush: "utterance_run E P s s' \<Longrightarrow>
            utterance_run E P s (flush_segment E P True s')"
  | reset: "utterance_run E P s s' \<Longrightarrow>
            utterance_run E P s (reset_segment_state s')"
  | job_start: "utterance_run E P s s' \<Longrightarrow>
            utterance_run E P s (s'\<lparr>stdout := stdout s' @ [JobStart path]\<rparr>)"
  | job_end: "utterance_run E P s s' \<Longrightarrow>
            utterance_run E P s (s'\<lparr>stdout := stdout s' @ [JobEnd path]\<rparr>)"

text \<open>The segment events printed between a state \<open>s\<close> and a later state \<open>s'\<close>.\<close>

definition utterance_events :: "pipeline \<Rightarrow> pipeline \<Rightarrow> event list" where
  "utterance_events s s' = drop (length (segment_events s)) (segment_events s')"

text \<open>
  What holds of the segment events \<open>evs\<close> that an utterance has emitted so far, with \<open>n\<close>
  the current value of \<open>partial_sequence\<close>: the events of an active utterance are partials
  with strictly increasing numbers below \<open>n\<close>; a finished utterance has at most one
  final, numbered above all its partials. When no decode fails the partials are numbered
  \<open>0, 1, 2, ...\<close> without gaps up to \<open>n\<close>, and a final carries their count.
\<close>

definition utt_inv :: "bool \<Rightarrow> event list \<Rightarrow> int \<Rightarrow> bool \<Rightarrow> bool" where
  "utt_inv allok evs n active =
     (sorted_wrt (<) (partial_seqs evs)
      \<and> (\<forall>q \<in> set (partial_seqs evs). 0 \<le> q)
      \<and> (allok \<longrightarrow> partial_seqs evs = map int [0..<length (partial_seqs evs)])
      \<and> (active \<longrightarrow> final_events evs = [] \<and> 0 \<le> n
             \<and> (\<forall>q \<in> set (partial_seqs evs). q < n)
             \<and> (allok \<longrightarrow> n = int (length (partial_seqs evs))))
      \<and> (\<not> active \<longrightarrow> length (final_events evs) \<le> 1
             \<and> (\<forall>f \<in> set (final_events evs).
                   (\<forall>q \<in> set (partial_seqs evs). q < segment_partial_seq f)
                   \<and> (allok \<longrightarrow> segment_partial_seq f = int (length (partial_seqs evs))))))"

text \<open>The invariant at a state \<open>s'\<close> of the utterance that was opened from state \<open>s\<close>.\<close>

definition utt_holds :: "env \<Rightarrow> pipeline \<Rightarrow> pipeline \<Rightarrow> bool" where
  "utt_holds E s s' =
     (\<exists>evs. segment_events s' = segment_events s @ evs
            \<and> utt_inv (all_decodes_ok E) evs (partial_sequence s') (in_segment s'))"

text \<open>
  Concrete inputs: an environment whose decoder always fails and one whose VAD always
  hears speech; an active utterance of twelve chunks whose only voiced chunk was the
  first, at the moment the silence flush is due; and the pipeline at startup with one
  chunk queued.
\<close>

definition env_fail :: env where
  "env_fail = env_quiet\<lparr>whisper_full :=
     (\<lambda>n wparams audio. \<lparr>wr_status = 1, wr_packets = [], wr_tokens = []\<rparr>)\<rparr>"

definition env_voiced :: env where
  "env_voiced = env_quiet\<lparr>vad_infer := (\<lambda>n chunk. Some 0.9)\<rparr>"

definition utterance_example :: pipeline where
  "utterance_example =
     init_pipeline\<lparr>current_segment := replicate 6144 0, segment_prob_sum := 1.2,
       segment_prob_count := 12, in_segment := True, segment_start_sample := 0,
       last_voice_sample := 512, processed_samples_total := 6144,
       active_segment_index := 0, last_partial_emit_sample := 0\<rparr>"

definition one_chunk_queued :: pipeline where
  "one_chunk_queued = (startup env_voiced default_params)\<lparr>pending_samples := replicate 512 0\<rparr>"

text \<open>
  Parameters with \<open>--min-segment-ms 0 --step-ms 0\<close>, under which every chunk of an utterance
  after the first asks for a partial; an environment whose VAD always hears speech and
  whose first decode fails; and the pipeline at startup with three chunks queued.
\<close>

definition params_eager :: vad_params where
  "params_eager = default_params\<lparr>min_segment_ms := 0, step_ms := 0\<rparr>"

definition env_first_fails :: env where
  "env_first_fails = env_voiced\<lparr>whisper_full :=
     (\<lambda>n wparams audio.
        \<lparr>wr_status = (if n = 0 then 1 else 0), wr_packets = [], wr_tokens = []\<rparr>)\<rparr>"

definition three_chunks_queued :: "env \<Rightarrow> pipeline" where
  "three_chunks_queued E = (startup E params_eager)\<lparr>pending_samples := replicate 1536 0\<rparr>"

section \<open>Properties of the capture ring\<close>

lemma length_memcpy_at:
  "pos + length src \<le> length buf \<Longrightarrow> length (memcpy_at buf pos src) = length buf"
  by (simp add: memcpy_at_def)

lemma nth_memcpy_at:
  "pos + length src \<le> length buf \<Longrightarrow> i < length buf \<Longrightarrow>
   memcpy_at buf pos src ! i =
     (if pos \<le> i \<and> i < pos + length src then src ! (i - pos) else buf ! i)"
  by (auto simp: memcpy_at_def nth_append)

lemma callback_Some:
  "m_running a \<Longrightarrow> m_audio a \<noteq> [] \<Longrightarrow> \<exists>a'. callback a stream = Some a'"
  by (simp add: callback_def Let_def)

lemma callback_total:
  "m_running a \<Longrightarrow> callback a stream = Some a' \<Longrightarrow>
   m_total_samples a' = m_total_samples a + of_nat (length stream)"
  by (auto simp: callback_def Let_def split: if_splits)

lemma callback_len:
  "m_running a \<Longrightarrow> callback a stream = Some a' \<Longrightarrow>
   m_audio_len a' =
     min (m_audio_len a + min (length stream) (length (m_audio a))) (length (m_audio a))"
  by (auto simp: callback_def Let_def min_def split: if_splits)

lemma callback_audio_length:
  "m_running a \<Longrightarrow> m_audio_pos a < length (m_audio a) \<Longrightarrow> callback a stream = Some a' \<Longrightarrow>
   length (m_audio a') = length (m_audio a)"
  by (auto simp: callback_def Let_def length_memcpy_at split: if_splits)

text \<open>
  The ring positions written by one delivery hold the tail of the delivery: position
  \<open>(pos + j) mod C\<close> receives sample \<open>s - min s C + j\<close> of the stream.
\<close>

lemma callback_written:
  assumes run: "m_running a" and pos: "m_audio_pos a < length (m_audio a)"
    and cb: "callback a stream = Some a'"
    and j: "j < min (length stream) (length (m_audio a))"
  shows "m_audio a' ! ((m_audio_pos a + j) mod length (m_audio a)) =
         stream ! (length stream - min (length stream) (length (m_audio a)) + j)"
proof -
  define C where "C = length (m_audio a)"
  define s where "s = length stream"
  define n where "n = min s C"
  define st where "st = drop (s - n) stream"
  define p where "p = m_audio_pos a"
  have lst: "length st = n" by (simp add: st_def n_def s_def)
  have stj: "st ! j = stream ! (s - n + j)"
    using j by (simp add: st_def n_def s_def C_def)
  have st_eq: "(if s > C then drop (s - C) stream else stream) = st"
    by (simp add: st_def n_def s_def min_def)
  have n_eq: "(if s > C then C else s) = n" by (simp add: n_def min_def)
  have jn: "j < n" using j by (simp add: n_def s_def C_def)
  have pC: "p < C" using pos by (simp add: p_def C_def)
  have nC: "n \<le> C" by (simp add: n_def)
  show ?thesis
  proof (cases "p + n > C")
    case False
    then have a': "m_audio a' = memcpy_at (m_audio a) p st"
      using cb run pC st_eq n_eq
      by (auto simp: callback_def Let_def C_def s_def p_def split: if_splits)
    have "(p + j) mod C = p + j" using False jn by simp
    moreover have "memcpy_at (m_audio a) p st ! (p + j) = st ! j"
      using False jn lst by (simp add: nth_memcpy_at C_def)
    ultimately show ?thesis using a' stj by (simp add: C_def s_def n_def p_def)
  next
    case True
    define n0 where "n0 = C - p"
    have a': "m_audio a' = memcpy_at (memcpy_at (m_audio a) p (take n0 st)) 0 (drop n0 st)"
      using cb run pC st_eq n_eq True
      by (auto simp: callback_def Let_def C_def s_def p_def n0_def split: if_splits)
    have l1: "length (take n0 st) = n0" using True lst by (simp add: n0_def)
    have l2: "length (drop n0 st) = n - n0" using lst by simp
    have len1: "length (memcpy_at (m_audio a) p (take n0 st)) = C"
      using l1 pC by (simp add: length_memcpy_at n0_def C_def)
    have "memcpy_at (memcpy_at (m_audio a) p (take n0 st)) 0 (drop n0 st) ! ((p + j) mod C) = st ! j"
    proof (cases "j < n0")
      case True
      then have lt: "p + j < C" by (simp add: n0_def)
      then have m: "(p + j) mod C = p + j" by simp
      have out: "\<not> (p + j < n - n0)" using nC pC by (simp add: n0_def)
      have "memcpy_at (memcpy_at (m_audio a) p (take n0 st)) 0 (drop n0 st) ! (p + j)
            = memcpy_at (m_audio a) p (take n0 st) ! (p + j)"
        using out l2 len1 nC lt by (subst nth_memcpy_at) auto
      also have "\<dots> = take n0 st ! j"
        using l1 lt True pC by (subst nth_memcpy_at) (auto simp: C_def n0_def)
      also have "\<dots> = st ! j" using True by simp
      finally show ?thesis using m by simp
    next
      case False
      then have "p + j = (j - n0) + C" using pC by (simp add: n0_def)
      moreover have "j - n0 < C" using jn nC by simp
      ultimately have m: "(p + j) mod C = j - n0" by simp
      have lt: "j - n0 < n - n0" using False jn by simp
      have "memcpy_at (memcpy_at (m_audio a) p (take n0 st)) 0 (drop n0 st) ! (j - n0)
            = drop n0 st ! (j - n0)"
        using lt l2 len1 nC by (subst nth_memcpy_at) auto
      also have "\<dots> = st ! j" using False lst jn by simp
      finally show ?thesis using m by simp
    qed
    then show ?thesis using a' stj by (simp add: C_def s_def n_def p_def)
  qed
qed

lemma unat_total:
  "unat (t :: 64 word) + n < 2 ^ 64 \<Longrightarrow> unat (t + of_nat n) = unat t + n"
  by (simp add: unat_word_ariths unat_of_nat)

text \<open>The 64-bit timeline computation agrees with integer division while it cannot wrap.\<close>

lemma timeline_word:
  assumes sr: "0 < sr" "sr < 2 ^ 31" and t: "unat (t :: 64 word) * 1000 < 2 ^ 63"
  shows "sint ((t * 1000) div (word_of_int sr :: 64 word)) = (int (unat t) * 1000) div sr"
proof -
  have u1: "unat (t * 1000) = unat t * 1000"
    using t by (simp add: unat_word_ariths)
  have u2: "uint (word_of_int sr :: 64 word) = sr"
    using sr by (simp add: uint_word_of_int take_bit_int_eq_self)
  have u3: "uint (t * 1000) = int (unat t) * 1000"
    by (simp only: uint_nat u1 of_nat_mult of_nat_numeral)
  have q: "uint ((t * 1000) div (word_of_int sr :: 64 word)) = (int (unat t) * 1000) div sr"
    using u2 u3 by (simp add: uint_div_distrib)
  have "(int (unat t) * 1000) div sr \<le> int (unat t) * 1000"
    using zdiv_mono2 [of "int (unat t) * 1000" 1 sr] sr by simp
  also have "\<dots> < 2 ^ 63"
  proof -
    have "int (unat t * 1000) < int (2 ^ 63)" using t by (simp only: of_nat_less_iff)
    then show ?thesis by simp
  qed
  finally have b: "(int (unat t) * 1000) div sr < 2 ^ 63" .
  have nn: "0 \<le> (int (unat t) * 1000) div sr"
    using sr by (simp add: pos_imp_zdiv_nonneg_iff)
  have "signed_take_bit 63 ((int (unat t) * 1000) div sr) = (int (unat t) * 1000) div sr"
    using b nn by (intro signed_take_bit_int_eq_self) auto
  then show ?thesis by (simp add: sint_uint q)
qed

lemma get_time:
  assumes "m_dev_id_in a \<noteq> 0" "m_running a" "0 < m_sample_rate a" "m_sample_rate a < 2 ^ 31"
    "unat (m_total_samples a) * 1000 < 2 ^ 63"
  shows "current_time_ms (get a ms r t) =
         (int (unat (m_total_samples a)) * 1000) div m_sample_rate a"
  using assms by (simp add: get_def Let_def timeline_word)

text \<open>
  Claim C1. While the ring is running (and has a non-empty buffer), a delivery of \<open>s\<close>
  samples to \<open>callback\<close> returns normally and adds exactly \<open>s\<close> to \<open>m_total_samples\<close>:
  as a 64-bit counter always, and as a number whenever the 64-bit counter does not wrap.
  This holds also when \<open>s\<close> exceeds the capacity \<open>C\<close>: then only the last \<open>min s C\<close>
  samples of the delivery are written (at the positions following the write cursor) and
  the valid length grows by \<open>min s C\<close>, capped at \<open>C\<close>. Every \<open>get\<close> that passes its two
  guards (device open, running) reports \<open>floor (total_samples * 1000 / sample_rate)\<close>, for
  a positive sample rate and a counter whose product with 1000 is below \<open>2^63\<close>.
\<close>

theorem capture_ring_timeline:
  "(m_running a \<and> m_audio a \<noteq> [] \<longrightarrow>
      (\<exists>a'. callback a stream = Some a'
         \<and> m_total_samples a' = m_total_samples a + of_nat (length stream)
         \<and> (unat (m_total_samples a) + length stream < 2 ^ 64 \<longrightarrow>
              unat (m_total_samples a') = unat (m_total_samples a) + length stream)
         \<and> m_audio_len a' =
              min (m_audio_len a + min (length stream) (length (m_audio a))) (length (m_audio a))
         \<and> (m_audio_pos a < length (m_audio a) \<longrightarrow>
              length (m_audio a') = length (m_audio a)
              \<and> (\<forall>j < min (length stream) (length (m_audio a)).
                    m_audio a' ! ((m_audio_pos a + j) mod length (m_audio a)) =
                    stream ! (length stream - min (length stream) (length (m_audio a)) + j)))))
   \<and> (m_dev_id_in a \<noteq> 0 \<and> m_running a \<and> 0 < m_sample_rate a \<and> m_sample_rate a < 2 ^ 31
        \<and> unat (m_total_samples a) * 1000 < 2 ^ 63 \<longrightarrow>
      current_time_ms (get a ms r t) =
        (int (unat (m_total_samples a)) * 1000) div m_sample_rate a)"
proof (intro conjI impI)
  assume h: "m_running a \<and> m_audio a \<noteq> []"
  then obtain a' where a': "callback a stream = Some a'"
    using callback_Some by blast
  have "m_total_samples a' = m_total_samples a + of_nat (length stream)"
    using h a' by (simp add: callback_total)
  moreover from this have "unat (m_total_samples a) + length stream < 2 ^ 64 \<longrightarrow>
      unat (m_total_samples a') = unat (m_total_samples a) + length stream"
    by (simp add: unat_total)
  moreover have "m_audio_len a' =
      min (m_audio_len a + min (length stream) (length (m_audio a))) (length (m_audio a))"
    using h a' by (simp add: callback_len)
  moreover have "m_audio_pos a < length (m_audio a) \<longrightarrow>
      length (m_audio a') = length (m_audio a)
      \<and> (\<forall>j < min (length stream) (length (m_audio a)).
            m_audio a' ! ((m_audio_pos a + j) mod length (m_audio a)) =
            stream ! (length stream - min (length stream) (length (m_audio a)) + j))"
    using h a' callback_audio_length callback_written by blast
  ultimately show "\<exists>a'. callback a stream = Some a'
         \<and> m_total_samples a' = m_total_samples a + of_nat (length stream)
         \<and> (unat (m_total_samples a) + length stream < 2 ^ 64 \<longrightarrow>
              unat (m_total_samples a') = unat (m_total_samples a) + length stream)
         \<and> m_audio_len a' =
              min (m_audio_len a + min (length stream) (length (m_audio a))) (length (m_audio a))
         \<and> (m_audio_pos a < length (m_audio a) \<longrightarrow>
              length (m_audio a') = length (m_audio a)
              \<and> (\<forall>j < min (length stream) (length (m_audio a)).
                    m_audio a' ! ((m_audio_pos a + j) mod length (m_audio a)) =
                    stream ! (length stream - min (length stream) (length (m_audio a)) + j)))"
    using a' by blast
next
  assume "m_dev_id_in a \<noteq> 0 \<and> m_running a \<and> 0 < m_sample_rate a \<and> m_sample_rate a < 2 ^ 31
        \<and> unat (m_total_samples a) * 1000 < 2 ^ 63"
  then show "current_time_ms (get a ms r t) =
        (int (unat (m_total_samples a)) * 1000) div m_sample_rate a"
    by (simp add: get_time)
qed

text \<open>
  The theorem at a ring of capacity 4 with the cursor at 3 and 40 samples counted, and a
  delivery of 6 samples: the counter reaches 46, the last four samples of the delivery
  are in the ring, and \<open>get\<close> reports \<open>40 * 1000 div 16000 = 2\<close> ms before the delivery.
\<close>

theorem capture_ring_timeline_witness:
  "m_running ring_running \<and> m_audio ring_running \<noteq> []
   \<and> m_audio_pos ring_running < length (m_audio ring_running)
   \<and> m_dev_id_in ring_running \<noteq> 0 \<and> 0 < m_sample_rate ring_running
   \<and> m_sample_rate ring_running < 2 ^ 31
   \<and> unat (m_total_samples ring_running) * 1000 < 2 ^ 63
   \<and> unat (m_total_samples ring_running) + length [1, 2, 3, 4, 5, 6 :: real] < 2 ^ 64
   \<and> (\<exists>a'. callback ring_running [1, 2, 3, 4, 5, 6] = Some a'
         \<and> m_total_samples a' = 46 \<and> unat (m_total_samples a') = 46 \<and> m_audio_len a' = 4
         \<and> m_audio a' ! 3 = 3)
   \<and> current_time_ms (get ring_running 0 [] 0) = 2"
  using capture_ring_timeline [of ring_running "[1, 2, 3, 4, 5, 6]" 0 "[]" 0]
  by (simp add: ring_running_def callback_def memcpy_at_def)

text \<open>
  Claim C6 as stated fails: \<open>get\<close> returns from both guards before \<open>result.clear()\<close>, so
  a vector that the caller passes in non-empty comes back non-empty.
\<close>

theorem get_not_running_counterexample:
  "result (get ring_paused 0 [1, 2] 0) \<noteq> []"
  by (simp add: get_def ring_paused_def ring_running_def)

text \<open>
  Claim C6, amended. When no device is open or the capture is not running, \<open>get\<close> logs
  one line to stderr and leaves both output parameters exactly as the caller passed
  them; so the returned sample sequence is empty exactly when the caller's vector was.
\<close>

theorem get_guards_leave_outputs:
  "m_dev_id_in a = 0 \<or> \<not> m_running a \<Longrightarrow>
   result (get a ms r t) = r \<and> current_time_ms (get a ms r t) = t
   \<and> length (get_stderr (get a ms r t)) = 1
   \<and> (result (get a ms r t) = [] \<longleftrightarrow> r = [])"
  by (auto simp: get_def)

theorem get_guards_leave_outputs_witness:
  "(m_dev_id_in ring_paused = 0 \<or> \<not> m_running ring_paused)
   \<and> result (get ring_paused 0 [] 7) = [] \<and> current_time_ms (get ring_paused 0 [] 7) = 7
   \<and> get_stderr (get ring_paused 0 [] 7) = [''get: not running!'']"
  using get_guards_leave_outputs [of ring_paused 0 "[]" 7]
  by (simp add: get_def ring_paused_def ring_running_def)

section \<open>Properties of the decode parameters\<close>

lemma decode_params_bias:
  assumes "bias_decoding P"
  shows "wp_beam_size (fst (decode_params E P d w i f q)) = clamp (requested_beam E P) 2 kWhisperMaxDecoders"
    and "fst (snd (decode_params E P d w i f q)) =
           (w \<or> requested_beam E P \<noteq> clamp (requested_beam E P) 2 kWhisperMaxDecoders)"
    and "snd (snd (decode_params E P d w i f q)) =
           (if requested_beam E P \<noteq> clamp (requested_beam E P) 2 kWhisperMaxDecoders \<and> \<not> w
            then [WarnClampBeamSize (requested_beam E P) (clamp (requested_beam E P) 2 kWhisperMaxDecoders)]
            else [])"
  using assms by (auto simp: decode_params_def Let_def requested_beam_def)

lemma decode_params_no_bias:
  assumes "\<not> bias_decoding P"
  shows "fst (snd (decode_params E P d w i f q)) = w"
    and "snd (snd (decode_params E P d w i f q)) = []"
  using assms by (auto simp: decode_params_def Let_def)

lemma reload_dictionary_warn [simp]:
  "warned_beam_size_clamp (reload_dictionary E P i q f force s) = warned_beam_size_clamp s"
  "decode_calls (reload_dictionary E P i q f force s) = decode_calls s"
  by (simp_all add: reload_dictionary_def split: prod.splits)

lemma reload_if_needed_no_warning:
  "filter is_warn_clamp (snd (snd (reload_dictionary_if_needed E P io i q f force d))) = []"
  by (simp add: reload_dictionary_if_needed_def Let_def split: sum.splits option.splits)

lemma reload_dictionary_clamp_warnings [simp]:
  "clamp_warnings (reload_dictionary E P i q f force s) = clamp_warnings s"
  using reload_if_needed_no_warning [of E P "poll_dict E (reload_calls s)" i q f force "dict s"]
  by (auto simp: reload_dictionary_def clamp_warnings_def split: prod.splits)

lemma warn_inv_reload [simp]:
  "warn_inv E P (reload_dictionary E P i q f force s) = warn_inv E P s"
  by (simp add: warn_inv_def)

lemma emit_transcription_warn:
  assumes "warn_inv E P s"
  shows "warn_inv E P (emit_transcription E P a i st f avg q s)"
proof (cases "a = []")
  case True
  then show ?thesis using assms by (simp add: emit_transcription_def)
next
  case False
  define s1 where "s1 = reload_dictionary E P i q f False s"
  have inv1: "warn_inv E P s1" using assms by (simp add: s1_def)
  obtain wp w' ws where dp: "decode_params E P (dict s1) (warned_beam_size_clamp s1) i f q = (wp, w', ws)"
    by (cases "decode_params E P (dict s1) (warned_beam_size_clamp s1) i f q") auto
  show ?thesis
  proof (cases "bias_decoding P")
    case True
    from decode_params_bias(2,3) [OF True, of E "dict s1" "warned_beam_size_clamp s1" i f q] dp
    show ?thesis using inv1 False
      by (auto simp: emit_transcription_def Let_def s1_def [symmetric] warn_inv_def clamp_warnings_def
          split: if_splits)
  next
    case nb: False
    from decode_params_no_bias [OF nb, of E "dict s1" "warned_beam_size_clamp s1" i f q] dp
    show ?thesis using inv1 False nb
      by (auto simp: emit_transcription_def Let_def s1_def [symmetric] warn_inv_def clamp_warnings_def)
  qed
qed

lemma emit_transcription_decoded:
  assumes "warn_inv E P s" "a \<noteq> []" "bias_decoding P"
    "requested_beam E P \<noteq> clamp (requested_beam E P) 2 kWhisperMaxDecoders"
  shows "clamp_warnings (emit_transcription E P a i st f avg q s) = 1"
    and "clamp_warnings (emit_transcription E P a i st f avg q s) - clamp_warnings s
           = (if warned_beam_size_clamp s then 0 else 1)"
proof -
  have inv: "warn_inv E P (emit_transcription E P a i st f avg q s)"
    using assms(1) by (rule emit_transcription_warn)
  have "decode_calls (emit_transcription E P a i st f avg q s) > 0"
    using assms(2) by (simp add: emit_transcription_def Let_def split: prod.splits)
  then have "warned_beam_size_clamp (emit_transcription E P a i st f avg q s)"
    using inv assms(3,4) by (simp add: warn_inv_def)
  then show "clamp_warnings (emit_transcription E P a i st f avg q s) = 1"
    using inv by (simp add: warn_inv_def)
  then show "clamp_warnings (emit_transcription E P a i st f avg q s) - clamp_warnings s
           = (if warned_beam_size_clamp s then 0 else 1)"
    using assms(1) by (simp add: warn_inv_def)
qed

lemma warn_inv_update [simp]:
  "warn_inv E P (s\<lparr>pending_samples := x1\<rparr>) = warn_inv E P s"
  "warn_inv E P (s\<lparr>pre_roll := x2\<rparr>) = warn_inv E P s"
  "warn_inv E P (s\<lparr>chunk_buffer := x3\<rparr>) = warn_inv E P s"
  "warn_inv E P (s\<lparr>current_segment := x4\<rparr>) = warn_inv E P s"
  "warn_inv E P (s\<lparr>segment_prob_sum := x5\<rparr>) = warn_inv E P s"
  "warn_inv E P (s\<lparr>segment_prob_count := x6\<rparr>) = warn_inv E P s"
  "warn_inv E P (s\<lparr>in_segment := x7\<rparr>) = warn_inv E P s"
  "warn_inv E P (s\<lparr>segment_start_sample := x8\<rparr>) = warn_inv E P s"
  "warn_inv E P (s\<lparr>last_voice_sample := x9\<rparr>) = warn_inv E P s"
  "warn_inv E P (s\<lparr>processed_samples_total := x10\<rparr>) = warn_inv E P s"
  "warn_inv E P (s\<lparr>segment_index := x11\<rparr>) = warn_inv E P s"
  "warn_inv E P (s\<lparr>active_segment_index := x12\<rparr>) = warn_inv E P s"
  "warn_inv E P (s\<lparr>partial_sequence := x13\<rparr>) = warn_inv E P s"
  "warn_inv E P (s\<lparr>last_partial_emit_sample := x14\<rparr>) = warn_inv E P s"
  "warn_inv E P (s\<lparr>vad_calls := x15\<rparr>) = warn_inv E P s"
  "warn_inv E P (s\<lparr>stdout := x16\<rparr>) = warn_inv E P s"
  "warn_inv E P (s\<lparr>last_fetch_time_ms := x17\<rparr>) = warn_inv E P s"
  by (simp_all add: warn_inv_def clamp_warnings_def)

lemma warn_inv_stderr [simp]:
  "filter is_warn_clamp x = filter is_warn_clamp (stderr s) \<Longrightarrow>
   warn_inv E P (s\<lparr>stderr := x\<rparr>) = warn_inv E P s"
  by (simp add: warn_inv_def clamp_warnings_def)

lemma flush_segment_warn:
  "warn_inv E P s \<Longrightarrow> warn_inv E P (flush_segment E P forced s)"
  by (simp add: flush_segment_def Let_def emit_transcription_warn)

lemma start_segment_warn [simp]:
  "warn_inv E P (start_segment P prob s) = warn_inv E P s"
  by (simp add: start_segment_def Let_def)

lemma append_chunk_warn [simp]:
  "warn_inv E P (append_chunk P prob s) = warn_inv E P s"
  by (simp add: append_chunk_def)

lemma pre_roll_chunk_warn [simp]:
  "warn_inv E P (pre_roll_chunk P s) = warn_inv E P s"
  by (simp add: pre_roll_chunk_def)

lemma pop_chunk_warn [simp]:
  "warn_inv E P (pop_chunk s) = warn_inv E P s"
  by (simp add: pop_chunk_def)

lemma count_chunk_warn [simp]:
  "warn_inv E P (count_chunk Q prob s) = warn_inv E P s"
  by (simp add: count_chunk_def Let_def)

lemma emit_partial_warn:
  "warn_inv E P s \<Longrightarrow> warn_inv E P (emit_partial E P s)"
  by (simp add: emit_partial_def Let_def emit_transcription_warn)

lemma end_of_segment_warn:
  "warn_inv E P s \<Longrightarrow> warn_inv E P (end_of_segment E P prob s)"
  by (simp add: end_of_segment_def flush_segment_warn)

lemma segment_chunk_warn:
  "warn_inv E P s \<Longrightarrow> warn_inv E P (segment_chunk E P prob s)"
  by (simp add: segment_chunk_def end_of_segment_warn emit_partial_warn)

lemma process_chunk_warn:
  "warn_inv E P s \<Longrightarrow> warn_inv E P (process_chunk E P s)"
  by (simp add: process_chunk_def segment_chunk_warn split: option.splits)

lemma process_pending_chunks_warn:
  "warn_inv E P s \<Longrightarrow> warn_inv E P (process_pending_chunks E P s)"
proof (induction E P s rule: process_pending_chunks.induct)
  case (1 E P s)
  show ?case
  proof (cases "length (pending_samples s) \<ge> vad_chunk_samples")
    case True
    then show ?thesis
      using 1 by (subst process_pending_chunks.simps) (simp add: process_chunk_warn)
  next
    case False
    then show ?thesis using 1 by (subst process_pending_chunks.simps) simp
  qed
qed

lemma startup_warn: "warn_inv E P (startup E P)"
  by (simp add: startup_def) (simp add: warn_inv_def clamp_warnings_def init_pipeline_def)

lemma run_audio_file_warn:
  "warn_inv E P s \<Longrightarrow> warn_inv E P (run_audio_file E P pcm s)"
proof -
  assume i: "warn_inv E P s"
  have "warn_inv E P (pad_pending (s\<lparr>pending_samples := pending_samples s @ pcm\<rparr>))"
    using i by (simp add: pad_pending_def Let_def)
  then show ?thesis
    by (simp add: run_audio_file_def flush_segment_warn process_pending_chunks_warn)
qed

lemma clamp_spec: "clamp v 2 kWhisperMaxDecoders = max 2 (min 8 v)"
  by (simp add: clamp_def kWhisperMaxDecoders_def)

lemma emit_transcription_call:
  assumes "a \<noteq> []"
  shows "stdout (emit_transcription E P a i st f avg q s) =
           stdout (reload_dictionary E P i q f False s)
           @ map Logits (wr_packets (whisper_full E (decode_calls s) (decode_wparams E P i f q s) a))
           @ (if wr_status (whisper_full E (decode_calls s) (decode_wparams E P i f q s) a) = 0
              then [segment_event E (whisper_full E (decode_calls s) (decode_wparams E P i f q s) a)
                      a i st f avg q]
              else [])"
    and "decode_calls (emit_transcription E P a i st f avg q s) = Suc (decode_calls s)"
  using assms
  by (simp_all add: emit_transcription_def Let_def decode_wparams_def split: prod.splits)

lemma decode_wparams_beam:
  "bias_decoding P \<Longrightarrow>
   wp_beam_size (decode_wparams E P i f q s) = max 2 (min 8 (requested_beam E P))
   \<and> strategy (decode_wparams E P i f q s) = WHISPER_SAMPLING_BEAM_SEARCH"
  using decode_params_bias(1) [of P E]
  by (simp add: decode_wparams_def clamp_spec) (simp add: decode_params_def Let_def)



section \<open>Properties of the dictionary manager\<close>

lemma length_resize [simp]: "length (resize v n) = n"
  by (simp add: resize_def)

lemma tokenize_variant_inv:
  assumes "build_inv st"
  shows "build_inv (tokenize_variant E entry st text)"
proof -
  obtain d fs total where st: "st = (d, fs, total)" by (cases st) auto
  obtain n_got buf where tk: "whisper_tokenize E text (nat (whisper_token_count E text)) = (n_got, buf)"
    by (cases "whisper_tokenize E text (nat (whisper_token_count E text))") auto
  show ?thesis
  proof (cases "whisper_token_count E text \<le> 0 \<or> n_got \<le> 0")
    case True
    then show ?thesis using assms st tk by (auto simp: tokenize_variant_def Let_def)
  next
    case False
    define seq where "seq = resize (resize buf (nat (whisper_token_count E text))) (nat n_got)"
    have len: "int (length seq) = n_got"
      using False by (simp add: seq_def)
    then have ne: "seq \<noteq> []" using False by auto
    show ?thesis
      using assms False len ne
      by (auto simp: tokenize_variant_def Let_def st tk build_inv_def seq_def [symmetric])
  qed
qed

lemma tokenize_entry_inv:
  assumes "build_inv st"
  shows "build_inv (tokenize_entry E st entry)"
proof -
  have "\<And>st. build_inv st \<Longrightarrow> build_inv (foldl (tokenize_variant E entry) st vs)" for vs
    by (induction vs) (auto simp: tokenize_variant_inv)
  then show ?thesis using assms by (simp add: tokenize_entry_def)
qed

lemma tokenize_entries_inv:
  "build_inv st \<Longrightarrow> build_inv (foldl (tokenize_entry E) st entries)"
  by (induction entries arbitrary: st) (auto simp: tokenize_entry_inv)

lemma rebuild_dictionary_inv: "dict_invariant (rebuild_dictionary E d contents mtime)"
proof -
  define d1 where "d1 = d\<lparr>dictionary_cache := contents, last_dictionary_write_time := mtime,
                 dictionary_token_seqs := [], dictionary_entry_texts := [],
                 dictionary_first_tokens := [], dictionary_first_token_ids := {},
                 last_dictionary_entries_raw := int (length (split_dictionary_entries contents)),
                 last_dictionary_error := []\<rparr>"
  have "build_inv (d1, {}, 0)" by (simp add: build_inv_def d1_def)
  then have inv: "build_inv (foldl (tokenize_entry E) (d1, {}, 0) (split_dictionary_entries contents))"
    by (rule tokenize_entries_inv)
  obtain d2 fs total where r: "foldl (tokenize_entry E) (d1, {}, 0) (split_dictionary_entries contents) = (d2, fs, total)"
    by (cases "foldl (tokenize_entry E) (d1, {}, 0) (split_dictionary_entries contents)") auto
  have "rebuild_dictionary E d contents mtime = d2\<lparr>last_dictionary_total_tokens := total\<rparr>"
    using r by (simp add: rebuild_dictionary_def Let_def d1_def)
  moreover have "distinct (dictionary_first_tokens d2) \<Longrightarrow>
      card (set (dictionary_first_tokens d2)) = length (dictionary_first_tokens d2)"
    by (rule distinct_card)
  ultimately show ?thesis
    using inv r by (auto simp: build_inv_def dict_invariant_def)
qed

lemma clear_dictionary_inv: "dict_invariant (clear_dictionary d err)"
  by (simp add: dict_invariant_def clear_dictionary_def)

lemma dict_invariant_reload_time [simp]:
  "dict_invariant (d\<lparr>last_dictionary_reload := t\<rparr>) = dict_invariant d"
  by (simp add: dict_invariant_def)

lemma reload_keeps_invariant:
  "dict_invariant d \<Longrightarrow>
   dict_invariant (fst (reload_dictionary_if_needed E P io i q f force d))"
  by (simp add: reload_dictionary_if_needed_def Let_def clear_dictionary_inv
      rebuild_dictionary_inv split: sum.splits option.splits)

lemma dictionary_reloaded_emit [simp]:
  "dictionary_reloaded (emit_dictionary_event E P d i q f a r) = r"
  by (simp add: emit_dictionary_event_def)

lemma reload_establishes_invariant:
  "\<exists>e \<in> set (fst (snd (reload_dictionary_if_needed E P io i q f force d))). dictionary_reloaded e \<Longrightarrow>
   dict_invariant (fst (reload_dictionary_if_needed E P io i q f force d))"
  by (auto simp: reload_dictionary_if_needed_def Let_def clear_dictionary_inv
      rebuild_dictionary_inv split: sum.splits option.splits if_splits)

lemma init_dictionary_inv: "dict_invariant init_dictionary"
  by (simp add: dict_invariant_def init_dictionary_def)


text \<open>The pipeline changes the indices only through the reload.\<close>

lemma reload_dictionary_dict_inv:
  "dict_invariant (dict s) \<Longrightarrow> dict_invariant (dict (reload_dictionary E P i q f force s))"
  using reload_keeps_invariant [of "dict s" E P "poll_dict E (reload_calls s)" i q f force]
  by (auto simp: reload_dictionary_def split: prod.splits)

lemma emit_transcription_dict_inv:
  "dict_invariant (dict s) \<Longrightarrow> dict_invariant (dict (emit_transcription E P a i st f avg q s))"
  by (simp add: emit_transcription_def Let_def reload_dictionary_dict_inv split: prod.splits)

lemma flush_segment_dict_inv:
  "dict_invariant (dict s) \<Longrightarrow> dict_invariant (dict (flush_segment E P forced s))"
  by (simp add: flush_segment_def Let_def emit_transcription_dict_inv)

lemma emit_partial_dict_inv:
  "dict_invariant (dict s) \<Longrightarrow> dict_invariant (dict (emit_partial E P s))"
  by (simp add: emit_partial_def Let_def emit_transcription_dict_inv)

lemma end_of_segment_dict_inv:
  "dict_invariant (dict s) \<Longrightarrow> dict_invariant (dict (end_of_segment E P prob s))"
  by (simp add: end_of_segment_def flush_segment_dict_inv)

lemma block_dict [simp]:
  "dict (start_segment P prob s) = dict s"
  "dict (append_chunk P prob s) = dict s"
  "dict (pre_roll_chunk P s) = dict s"
  "dict (pop_chunk s) = dict s"
  "dict (count_chunk P prob s) = dict s"
  "dict (pad_pending s) = dict s"
  by (simp_all add: start_segment_def append_chunk_def pre_roll_chunk_def pop_chunk_def
      count_chunk_def pad_pending_def Let_def)

lemma segment_chunk_dict_inv:
  "dict_invariant (dict s) \<Longrightarrow> dict_invariant (dict (segment_chunk E P prob s))"
  by (simp add: segment_chunk_def end_of_segment_dict_inv emit_partial_dict_inv)

lemma process_chunk_dict_inv:
  "dict_invariant (dict s) \<Longrightarrow> dict_invariant (dict (process_chunk E P s))"
  by (simp add: process_chunk_def segment_chunk_dict_inv split: option.splits)

lemma process_pending_chunks_dict_inv:
  "dict_invariant (dict s) \<Longrightarrow> dict_invariant (dict (process_pending_chunks E P s))"
proof (induction E P s rule: process_pending_chunks.induct)
  case (1 E P s)
  show ?case
  proof (cases "length (pending_samples s) \<ge> vad_chunk_samples")
    case True
    then show ?thesis
      using 1 by (subst process_pending_chunks.simps) (simp add: process_chunk_dict_inv)
  next
    case False
    then show ?thesis using 1 by (subst process_pending_chunks.simps) simp
  qed
qed

lemma run_audio_file_dict_inv:
  "dict_invariant (dict s) \<Longrightarrow> dict_invariant (dict (run_audio_file E P pcm s))"
  by (simp add: run_audio_file_def flush_segment_dict_inv process_pending_chunks_dict_inv)

lemma main_offline_dict_inv: "dict_invariant (dict (main_offline E P pcm))"
  by (simp add: main_offline_def startup_def run_audio_file_dict_inv reload_dictionary_dict_inv
      init_pipeline_def init_dictionary_inv)

text \<open>
  Claim C8. The invariant of the indices (every sequence of \<open>token_seqs\<close> non-empty with
  its first token in \<open>first_token_ids\<close>; \<open>first_token_ids\<close> and \<open>first_tokens_ordered\<close> with
  the same members and the same number of them; \<open>dict_total_tokens\<close> the sum of the
  sequence lengths) holds initially, is kept by every call of the reload, holds after
  every call that reports \<open>reloaded = true\<close> whatever the indices were before, and so
  holds at the end of every offline run.
\<close>

theorem dictionary_indices_invariant:
  "dict_invariant init_dictionary
   \<and> (dict_invariant d \<longrightarrow>
        dict_invariant (fst (reload_dictionary_if_needed E P io i q f force d)))
   \<and> ((\<exists>e \<in> set (fst (snd (reload_dictionary_if_needed E P io i q f force d))).
          dictionary_reloaded e) \<longrightarrow>
        dict_invariant (fst (reload_dictionary_if_needed E P io i q f force d)))
   \<and> dict_invariant (dict (main_offline E P pcm))"
  using init_dictionary_inv reload_keeps_invariant reload_establishes_invariant
    main_offline_dict_inv
  by blast

text \<open>The forced reload of a file holding \<open>openflow\<close>, from indices that violate the
  invariant: two sequences of 8 and 9 tokens, two first tokens.\<close>

theorem dictionary_indices_invariant_witness:
  "dict_invariant init_dictionary
   \<and> \<not> dict_invariant (dict_example\<lparr>last_dictionary_total_tokens := 7\<rparr>)
   \<and> (\<exists>e \<in> set (fst (snd (reload_dictionary_if_needed env_quiet params_dict
                  (poll_dict env_quiet 0) (-1) (-1) False True
                  (dict_example\<lparr>last_dictionary_total_tokens := 7\<rparr>)))).
          dictionary_reloaded e)
   \<and> dict_invariant (fst (reload_dictionary_if_needed env_quiet params_dict
          (poll_dict env_quiet 0) (-1) (-1) False True
          (dict_example\<lparr>last_dictionary_total_tokens := 7\<rparr>)))
   \<and> last_dictionary_total_tokens (fst (reload_dictionary_if_needed env_quiet params_dict
          (poll_dict env_quiet 0) (-1) (-1) False True
          (dict_example\<lparr>last_dictionary_total_tokens := 7\<rparr>))) = 17"
  using dictionary_indices_invariant [of "dict_example\<lparr>last_dictionary_total_tokens := 7\<rparr>"
      env_quiet params_dict "poll_dict env_quiet 0" "-1" "-1" False True "[]"]
  by (simp add: reload_dictionary_if_needed_def params_dict_def default_params_def env_quiet_def
      dict_example_def dict_invariant_def rebuild_dictionary_def split_dictionary_entries_def
      isspace_def flush_entry_def trim_def tokenize_entry_def variants_def tokenize_variant_def
      resize_def Let_def)

text \<open>
  Claim C9 as stated fails: a call that comes less than \<open>dictionary_poll_ms\<close> after the
  last poll returns before the mtime is looked at, and writes no event at all.
\<close>

theorem reload_within_poll_interval_counterexample:
  "fst (snd (reload_dictionary_if_needed env_quiet params_dict io_early 0 0 False False
               dict_example)) = []"
  by (simp add: reload_dictionary_if_needed_def params_dict_def default_params_def
      io_early_def dict_example_def cdiv_def Let_def)

text \<open>
  Claim C9, amended. When a dictionary file is configured, the file's mtime equals the
  one recorded at the last reload and \<open>force\<close> is not set, the call leaves every index
  unchanged (only the time of the last poll may move). If at least \<open>dictionary_poll_ms\<close>
  have passed since the last poll it writes exactly one \<open>dictionary\<close> event, with
  \<open>reloaded = false\<close> and the counts of the unchanged indices; otherwise it writes none.
\<close>

theorem reload_unchanged_mtime:
  assumes "dictionary_path P \<noteq> []" "\<not> force"
    and "io_mtime io = Inr (last_dictionary_write_time d)"
  shows "fst (reload_dictionary_if_needed E P io i q f force d)
           = d\<lparr>last_dictionary_reload :=
                 last_dictionary_reload (fst (reload_dictionary_if_needed E P io i q f force d))\<rparr>
         \<and> fst (snd (reload_dictionary_if_needed E P io i q f force d))
           = (if cdiv (io_now io - last_dictionary_reload d) 1000000 \<ge> dictionary_poll_ms P
              then [emit_dictionary_event E P d i q f True False] else [])
         \<and> (\<forall>e \<in> set (fst (snd (reload_dictionary_if_needed E P io i q f force d))).
               is_dictionary e \<and> \<not> dictionary_reloaded e)"
  using assms
  by (auto simp: reload_dictionary_if_needed_def Let_def emit_dictionary_event_def)

theorem reload_unchanged_mtime_witness:
  "dictionary_path params_dict \<noteq> [] \<and> \<not> False
   \<and> io_mtime io_late = Inr (last_dictionary_write_time dict_example)
   \<and> fst (reload_dictionary_if_needed env_quiet params_dict io_late 0 0 False False dict_example)
       = dict_example\<lparr>last_dictionary_reload := 2000000000\<rparr>
   \<and> fst (snd (reload_dictionary_if_needed env_quiet params_dict io_late 0 0 False False
                 dict_example))
       = [Dictionary 0 0 False True False True [] 1 2 2 5 2 []]"
  using reload_unchanged_mtime [of params_dict False io_late dict_example env_quiet 0 0 False]
  by (simp add: reload_dictionary_if_needed_def params_dict_def default_params_def
      io_late_def dict_example_def cdiv_def Let_def emit_dictionary_event_def)

section \<open>Frames processed by the loop\<close>


lemma process_pending_chunks_done:
  "length (pending_samples s) < vad_chunk_samples \<Longrightarrow> process_pending_chunks E P s = s"
  by (subst process_pending_chunks.simps) simp

lemma process_pending_chunks_step:
  "vad_chunk_samples \<le> length (pending_samples s) \<Longrightarrow>
   process_pending_chunks E P s = process_pending_chunks E P (process_chunk E P s)"
  by (subst process_pending_chunks.simps) simp

lemma process_pending_chunks_counts:
  "vad_calls (process_pending_chunks E P s)
     = vad_calls s + length (pending_samples s) div vad_chunk_samples
   \<and> pending_samples (process_pending_chunks E P s)
     = drop (vad_chunk_samples * (length (pending_samples s) div vad_chunk_samples))
         (pending_samples s)"
proof (induction E P s rule: process_pending_chunks.induct)
  case (1 E P s)
  show ?case
  proof (cases "vad_chunk_samples \<le> length (pending_samples s)")
    case False
    then show ?thesis by (simp add: process_pending_chunks_done)
  next
    case True
    have d: "length (pending_samples s) div vad_chunk_samples
               = Suc ((length (pending_samples s) - vad_chunk_samples) div vad_chunk_samples)"
      using True by (simp add: vad_chunk_samples_def le_div_geq)
    show ?thesis
      using 1 True
      by (simp add: process_pending_chunks_step d) (simp add: add.commute)
  qed
qed

lemma round_up_chunk:
  fixes n :: nat
  shows "n mod 512 \<noteq> 0 \<Longrightarrow> n + (512 - n mod 512) = 512 * ((n + 511) div 512)"
    and "n mod 512 = 0 \<Longrightarrow> n = 512 * ((n + 511) div 512)"
proof -
  have split: "(n + 511) div 512 = n div 512 + (n mod 512 + 511) div 512"
    using div_add1_eq [of n 511 512] by simp
  have n: "n = 512 * (n div 512) + n mod 512" by simp
  {
    assume r: "n mod 512 \<noteq> 0"
    have lt: "n mod 512 < 512" by simp
    have "(n mod 512 + 511) div 512 = 1"
      using r lt by (intro div_nat_eqI) auto
    then have "512 * ((n + 511) div 512) = 512 * (n div 512) + 512"
      using split by simp
    then show "n + (512 - n mod 512) = 512 * ((n + 511) div 512)"
      using n lt by linarith
  }
  {
    assume r: "n mod 512 = 0"
    then have "(n mod 512 + 511) div 512 = 0" by simp
    then have "512 * ((n + 511) div 512) = 512 * (n div 512)"
      using split by simp
    then show "n = 512 * ((n + 511) div 512)"
      using n r by linarith
  }
qed

lemma pad_pending_length:
  "length (pending_samples (pad_pending s))
     = vad_chunk_samples * ((length (pending_samples s) + (vad_chunk_samples - 1)) div vad_chunk_samples)"
  using round_up_chunk [of "length (pending_samples s)"]
  by (auto simp: pad_pending_def Let_def vad_chunk_samples_def)

lemma pad_pending_samples:
  "\<exists>k < vad_chunk_samples. pending_samples (pad_pending s) = pending_samples s @ replicate k 0"
proof (cases "length (pending_samples s) mod vad_chunk_samples = 0")
  case True
  then show ?thesis
    by (intro exI [of _ 0]) (simp add: pad_pending_def vad_chunk_samples_def)
next
  case False
  then show ?thesis
    by (intro exI [of _ "vad_chunk_samples - length (pending_samples s) mod vad_chunk_samples"])
       (simp add: pad_pending_def Let_def vad_chunk_samples_def)
qed

lemma pad_pending_vad_calls [simp]: "vad_calls (pad_pending s) = vad_calls s"
  by (simp add: pad_pending_def Let_def)

lemma run_audio_file_frames:
  assumes "pending_samples s = []"
  shows "vad_calls (run_audio_file E P pcm s) = vad_calls s + (length pcm + 511) div 512"
    and "pending_samples (run_audio_file E P pcm s) = []"
proof -
  define s1 where "s1 = pad_pending (s\<lparr>pending_samples := pending_samples s @ pcm\<rparr>)"
  have len: "length (pending_samples s1) = 512 * ((length pcm + 511) div 512)"
    using pad_pending_length [of "s\<lparr>pending_samples := pending_samples s @ pcm\<rparr>"] assms
    by (simp add: s1_def vad_chunk_samples_def)
  have vc: "vad_calls s1 = vad_calls s" by (simp add: s1_def)
  show "vad_calls (run_audio_file E P pcm s) = vad_calls s + (length pcm + 511) div 512"
    using process_pending_chunks_counts [of E P s1] len vc
    by (simp add: run_audio_file_def s1_def [symmetric] vad_chunk_samples_def)
  show "pending_samples (run_audio_file E P pcm s) = []"
    using process_pending_chunks_counts [of E P s1] len
    by (simp add: run_audio_file_def s1_def [symmetric] vad_chunk_samples_def)
qed

lemma round_up_bounds:
  fixes n :: nat
  shows "n \<le> 512 * ((n + 511) div 512)" and "512 * ((n + 511) div 512) < n + 512"
proof -
  have "(n + 511) mod 512 < 512" by simp
  moreover have "n + 511 = 512 * ((n + 511) div 512) + (n + 511) mod 512" by simp
  ultimately show "n \<le> 512 * ((n + 511) div 512)" and "512 * ((n + 511) div 512) < n + 512"
    by linarith+
qed

lemma ceiling_chunks: "int ((n + 511) div 512) = \<lceil>real n / 512\<rceil>"
proof -
  define q where "q = (n + 511) div 512"
  have "n \<le> 512 * q" and "512 * q < n + 512"
    using round_up_bounds [of n] by (simp_all add: q_def)
  then have "real n \<le> real (512 * q)" and "real (512 * q) < real (n + 512)"
    by (simp_all only: of_nat_le_iff of_nat_less_iff)
  then have a: "real n \<le> 512 * real q" and b: "512 * real q < real n + 512"
    by simp_all
  have "\<lceil>real n / 512\<rceil> = int q"
    using a b by (intro ceiling_unique) (simp_all add: field_simps)
  then show ?thesis by (simp add: q_def)
qed

lemma process_chunk_silent:
  assumes "silent E P" "\<not> in_segment s"
  shows "\<not> in_segment (process_chunk E P s)"
    and "segment_events (process_chunk E P s) = segment_events s"
    and "vad_events (process_chunk E P s) = vad_events s + (if emit_vad_events P then 1 else 0)"
proof -
  obtain p where p: "vad_infer E (vad_calls s) (take vad_chunk_samples (pending_samples s)) = Some p"
    "p < start_threshold P"
    using assms(1) unfolding silent_def by blast
  have eq: "process_chunk E P s = pre_roll_chunk P (count_chunk P p (pop_chunk s))"
    using p assms(2)
    by (simp add: process_chunk_def segment_chunk_def count_chunk_def pop_chunk_def Let_def)
  show "\<not> in_segment (process_chunk E P s)"
    using assms(2) by (simp add: eq pre_roll_chunk_def count_chunk_def pop_chunk_def Let_def)
  show "segment_events (process_chunk E P s) = segment_events s"
    by (simp add: eq pre_roll_chunk_def count_chunk_def pop_chunk_def Let_def segment_events_def)
  show "vad_events (process_chunk E P s) = vad_events s + (if emit_vad_events P then 1 else 0)"
    by (simp add: eq pre_roll_chunk_def count_chunk_def pop_chunk_def Let_def vad_events_def)
qed

section \<open>Silence, and the padding of offline files\<close>


lemma process_pending_chunks_silent:
  "silent E P \<Longrightarrow> \<not> in_segment s \<Longrightarrow>
   \<not> in_segment (process_pending_chunks E P s)
   \<and> segment_events (process_pending_chunks E P s) = segment_events s
   \<and> vad_events (process_pending_chunks E P s)
     = vad_events s + (if emit_vad_events P
                       then length (pending_samples s) div vad_chunk_samples else 0)"
proof (induction E P s rule: process_pending_chunks.induct)
  case (1 E P s)
  show ?case
  proof (cases "vad_chunk_samples \<le> length (pending_samples s)")
    case False
    then show ?thesis using 1(3) by (simp add: process_pending_chunks_done)
  next
    case True
    have d: "length (pending_samples s) div vad_chunk_samples
               = Suc ((length (pending_samples s) - vad_chunk_samples) div vad_chunk_samples)"
      using True by (simp add: vad_chunk_samples_def le_div_geq)
    note pc = process_chunk_silent [OF 1(2) 1(3)]
    show ?thesis
      using 1(1) [OF True 1(2) pc(1)] True pc(2,3)
      by (simp add: process_pending_chunks_step d)
  qed
qed

lemma flush_segment_inactive:
  "\<not> in_segment s \<Longrightarrow> stdout (flush_segment E P forced s) = stdout s"
  by (simp add: flush_segment_def)

lemma reload_if_needed_events:
  "\<forall>e \<in> set (fst (snd (reload_dictionary_if_needed E P io i q f force d))). is_dictionary e"
  by (simp add: reload_dictionary_if_needed_def Let_def emit_dictionary_event_def
      split: sum.splits option.splits)

lemma startup_quiet:
  "\<not> in_segment (startup E P)" "segment_events (startup E P) = []"
  "vad_events (startup E P) = 0" "pending_samples (startup E P) = []"
  "vad_calls (startup E P) = 0"
proof -
  have f: "\<And>evs. \<forall>e \<in> set evs. is_dictionary e \<Longrightarrow>
             filter is_segment evs = [] \<and> filter is_vad evs = []"
  proof -
    fix evs :: "event list"
    assume a: "\<forall>e \<in> set evs. is_dictionary e"
    have "\<And>e. is_dictionary e \<Longrightarrow> \<not> is_segment e \<and> \<not> is_vad e"
      by (case_tac e) auto
    then show "filter is_segment evs = [] \<and> filter is_vad evs = []"
      using a by (auto simp: filter_empty_conv)
  qed
  show "\<not> in_segment (startup E P)"
    by (simp add: startup_def reload_dictionary_def init_pipeline_def split: prod.splits)
  show "segment_events (startup E P) = []"
    using f [OF reload_if_needed_events [of E P "poll_dict E 0" "-1" "-1" False True init_dictionary]]
    by (auto simp: startup_def reload_dictionary_def init_pipeline_def segment_events_def
        split: prod.splits)
  show "vad_events (startup E P) = 0"
    using f [OF reload_if_needed_events [of E P "poll_dict E 0" "-1" "-1" False True init_dictionary]]
    by (auto simp: startup_def reload_dictionary_def init_pipeline_def vad_events_def
        split: prod.splits)
  show "pending_samples (startup E P) = []" "vad_calls (startup E P) = 0"
    by (simp_all add: startup_def init_pipeline_def)
qed

lemma run_audio_file_silent:
  assumes "silent E P" "\<not> in_segment s" "pending_samples s = []"
  shows "segment_events (run_audio_file E P pcm s) = segment_events s"
    and "vad_events (run_audio_file E P pcm s)
           = vad_events s + (if emit_vad_events P then (length pcm + 511) div 512 else 0)"
proof -
  define s1 where "s1 = pad_pending (s\<lparr>pending_samples := pending_samples s @ pcm\<rparr>)"
  have len: "length (pending_samples s1) = 512 * ((length pcm + 511) div 512)"
    using pad_pending_length [of "s\<lparr>pending_samples := pending_samples s @ pcm\<rparr>"] assms(3)
    by (simp add: s1_def vad_chunk_samples_def)
  have fr: "\<not> in_segment s1" "stdout s1 = stdout s"
    using assms(2) by (simp_all add: s1_def pad_pending_def Let_def)
  note pp = process_pending_chunks_silent [OF assms(1) fr(1)]
  have out: "stdout (run_audio_file E P pcm s) = stdout (process_pending_chunks E P s1)"
    using pp by (simp add: run_audio_file_def s1_def [symmetric] flush_segment_inactive)
  show "segment_events (run_audio_file E P pcm s) = segment_events s"
    using pp fr(2) out by (simp add: segment_events_def)
  show "vad_events (run_audio_file E P pcm s)
           = vad_events s + (if emit_vad_events P then (length pcm + 511) div 512 else 0)"
    using pp fr(2) out len by (simp add: vad_events_def vad_chunk_samples_def)
qed

lemma stdin_pcm_samples_silent:
  assumes "silent E P" "\<not> in_segment s" "pending_samples s = []"
  shows "segment_events (stdin_pcm_samples E P samples s) = segment_events s"
    and "vad_events (stdin_pcm_samples E P samples s)
           = vad_events s + (if emit_vad_events P then length samples div 512 else 0)"
  using process_pending_chunks_silent [OF assms(1), of "s\<lparr>pending_samples := pending_samples s @ samples\<rparr>"]
    assms(2,3)
  by (simp_all add: stdin_pcm_samples_def segment_events_def vad_events_def vad_chunk_samples_def)

lemma env_quiet_silent: "silent env_quiet default_params"
  by (simp add: silent_def env_quiet_def default_params_def)




section \<open>Properties of the logits bias callback\<close>


lemma length_add_bias [simp]:
  "length (add_bias n_vocab token_beg logits token_id bias) = length logits"
  by (simp add: add_bias_def)

lemma add_bias_guarded:
  "token_id < 0 \<or> token_id \<ge> n_vocab \<or> (token_beg > 0 \<and> token_id \<ge> token_beg)
     \<or> \<not> isfinite (logits ! nat token_id) \<Longrightarrow>
   add_bias n_vocab token_beg logits token_id bias = logits"
  by (auto simp: add_bias_def)

lemma nth_add_bias:
  assumes "length logits = nat n_vocab" "i < length logits"
  shows "add_bias n_vocab token_beg logits token_id bias ! i =
           (if int i = token_id \<and> \<not> (token_beg > 0 \<and> token_id \<ge> token_beg)
            then boost_once bias (logits ! i) else logits ! i)"
proof (cases "int i = token_id")
  case True
  then have "nat token_id = i" by simp
  then show ?thesis using assms True by (auto simp: add_bias_def boost_once_def)
next
  case False
  then have "token_id \<ge> 0 \<Longrightarrow> nat token_id \<noteq> i" by auto
  then show ?thesis using assms False by (auto simp: add_bias_def)
qed

lemma length_foldl_add_bias [simp]:
  "length (foldl (\<lambda>lg t. add_bias n_vocab token_beg lg t b) logits ts) = length logits"
  by (induction ts arbitrary: logits) auto

lemma nth_foldl_add_bias:
  assumes "length logits = nat n_vocab" "i < length logits"
  shows "foldl (\<lambda>lg t. add_bias n_vocab token_beg lg t b) logits ts ! i =
           (if token_beg > 0 \<and> int i \<ge> token_beg then logits ! i
            else (boost_once b ^^ count_list ts (int i)) (logits ! i))"
  using assms
proof (induction ts arbitrary: logits)
  case Nil
  then show ?case by simp
next
  case (Cons t ts)
  define lg1 where "lg1 = add_bias n_vocab token_beg logits t b"
  have l: "length lg1 = nat n_vocab" "i < length lg1"
    using Cons.prems by (simp_all add: lg1_def)
  have ih: "foldl (\<lambda>lg t. add_bias n_vocab token_beg lg t b) lg1 ts ! i =
           (if token_beg > 0 \<and> int i \<ge> token_beg then lg1 ! i
            else (boost_once b ^^ count_list ts (int i)) (lg1 ! i))"
    using Cons.IH [OF l] .
  have st: "lg1 ! i = (if int i = t \<and> \<not> (token_beg > 0 \<and> t \<ge> token_beg)
            then boost_once b (logits ! i) else logits ! i)"
    unfolding lg1_def using Cons.prems by (rule nth_add_bias)
  have fold: "foldl (\<lambda>lg t. add_bias n_vocab token_beg lg t b) logits (t # ts)
                = foldl (\<lambda>lg t. add_bias n_vocab token_beg lg t b) lg1 ts"
    by (simp add: lg1_def)
  show ?case
  proof (cases "token_beg > 0 \<and> int i \<ge> token_beg")
    case True
    then show ?thesis unfolding fold ih st by auto
  next
    case g: False
    show ?thesis
    proof (cases "int i = t")
      case True
      then have c: "count_list (t # ts) (int i) = Suc (count_list ts (int i))" by simp
      show ?thesis unfolding fold ih st c using g True by (auto simp: funpow_swap1)
    next
      case False
      then have c: "count_list (t # ts) (int i) = count_list ts (int i)" by simp
      show ?thesis unfolding fold ih st c using g False by auto
    qed
  qed
qed

lemma continuation_step_target:
  "continuation_step n_vocab token_beg b tokens (logits, m, keys) seq =
     (foldl (\<lambda>lg t. add_bias n_vocab token_beg lg t b) logits (seq_target tokens seq),
      foldl (\<lambda>m t. boosted_add m t b) m (seq_target tokens seq),
      keys @ seq_target tokens seq)"
  by (simp add: continuation_step_def seq_target_def Let_def split: option.splits)

lemma foldl_continuation_step:
  "foldl (continuation_step n_vocab token_beg b tokens) (logits, m, keys) seqs =
     (foldl (\<lambda>lg t. add_bias n_vocab token_beg lg t b) logits (continuation_targets tokens seqs),
      foldl (\<lambda>m t. boosted_add m t b) m (continuation_targets tokens seqs),
      keys @ continuation_targets tokens seqs)"
proof (induction seqs arbitrary: logits m keys)
  case Nil
  then show ?case by (simp add: continuation_targets_def)
next
  case (Cons seq seqs)
  have t: "continuation_targets tokens (seq # seqs)
             = seq_target tokens seq @ continuation_targets tokens seqs"
    by (simp add: continuation_targets_def)
  show ?case
    unfolding t by (simp only: foldl_Cons continuation_step_target Cons foldl_append append_assoc)
qed

lemma filter_cb_plan:
  assumes "b_enabled bctx" "n_vocab > 0"
  shows "fst (whisper_logits_filter_cb n_vocab token_beg tokens logits bctx) =
           foldl (\<lambda>lg t. add_bias n_vocab token_beg lg t (snd (boost_plan tokens bctx))) logits
             (fst (boost_plan tokens bctx))"
proof (cases "b_dict_token_seqs bctx")
  case None
  then show ?thesis using assms
    by (simp add: whisper_logits_filter_cb_def boost_plan_def Let_def split: option.splits)
next
  case (Some seqs)
  then show ?thesis using assms
    by (simp add: whisper_logits_filter_cb_def boost_plan_def Let_def foldl_continuation_step
        split: option.splits)
qed

lemma filter_cb_disabled:
  "\<not> b_enabled bctx \<or> n_vocab \<le> 0 \<Longrightarrow>
   fst (whisper_logits_filter_cb n_vocab token_beg tokens logits bctx) = logits"
  by (auto simp: whisper_logits_filter_cb_def)

lemma boost_once_funpow_nonfinite:
  "\<not> isfinite v \<Longrightarrow> (boost_once b ^^ k) v = v"
  by (induction k) (auto simp: boost_once_def)

lemma boost_once_funpow_zero_or_finite:
  "(boost_once b ^^ k) v \<noteq> v \<Longrightarrow> isfinite v \<and> k > 0"
  using boost_once_funpow_nonfinite [where v = v and b = b and k = k] by (cases k) auto

text \<open>
  Claim C4 as stated fails, in three ways. The guard of \<open>add_bias\<close> for the
  timestamp/control range is \<open>token_beg > 0 && token_id >= token_beg\<close>, so with
  \<open>token_beg = 0\<close> an id at or above \<open>token_beg\<close> is biased, by \<open>add_bias\<close> and by the
  callback. Two dictionary sequences that continue the prefix with the same token boost
  that token twice, so its logit moves by twice the bias magnitude. And the addition is a
  binary32 addition: a logit of \<open>2^24\<close> that passes every guard is left unchanged by a bias
  of 1, by \<open>add_bias\<close> and by the callback, and a logit of \<open>2^127\<close> biased by \<open>2^127\<close> becomes
  infinite.
\<close>

theorem bias_callback_counterexample:
  "(1 :: int) \<ge> 0
   \<and> add_bias 2 0 [Fin 0, Fin 0] 1 (Fin 1) ! 1 \<noteq> [Fin 0, Fin 0] ! 1
   \<and> fst (whisper_logits_filter_cb 2 0 [] [Fin 0, Fin 0]
             (bctx_example\<lparr>b_dict_first_tokens := Some [1]\<rparr>)) ! 1 \<noteq> [Fin 0, Fin 0] ! 1
   \<and> boost_plan [7] (bctx_shared (Fin (1 / 2))) = ([1, 1], Fin (1 / 2))
   \<and> fst (whisper_logits_filter_cb 4 2 [7] [Fin 0, Fin 1, Fin 5, MInf] (bctx_shared (Fin (1 / 2))))
       = [Fin 0, Fin 2, Fin 5, MInf]
   \<and> fadd (Fin 1) (Fin (1 / 2)) = Fin (3 / 2)
   \<and> (0 :: int) \<le> 0 \<and> (0 :: int) < 1 \<and> \<not> ((1 :: int) > 0 \<and> (0 :: int) \<ge> 1)
   \<and> isfinite ([Fin 16777216] ! nat 0)
   \<and> add_bias 1 1 [Fin 16777216] 0 (Fin 1) = [Fin 16777216]
   \<and> fst (whisper_logits_filter_cb 4 2 [7] [Fin 0, Fin 16777216, Fin 5, MInf] (bctx_shared (Fin 1)))
       = [Fin 0, Fin 16777216, Fin 5, MInf]
   \<and> add_bias 1 1 [Fin (2 ^ 127)] 0 (Fin (2 ^ 127)) = [PInf]
   \<and> fst (whisper_logits_filter_cb 4 2 [7] [Fin 0, Fin (2 ^ 127), Fin 5, MInf] (bctx_shared (Fin (2 ^ 127))))
       = [Fin 0, PInf, Fin 5, MInf]"
  by code_simp

text \<open>
  Claim C4, amended. For a logits array of \<open>n_vocab\<close> entries: \<open>add_bias\<close> leaves the array
  unchanged whenever \<open>id < 0\<close>, \<open>id \<ge> n_vocab\<close>, \<open>token_beg > 0\<close> and \<open>id \<ge> token_beg\<close>, or
  \<open>logits[id]\<close> is non-finite, and otherwise replaces \<open>logits[id]\<close>, and no other entry, by
  the binary32 sum of \<open>logits[id]\<close> and the bias. The callback keeps the length of the
  array; when \<open>token_beg > 0\<close> it never changes an entry at an index \<open>\<ge> token_beg\<close>; it never
  changes a non-finite entry; and every entry it does change is a finite entry at a
  boosted id, whose new value is obtained by adding the bias magnitude of the active
  phase in binary32, once per boost that targets it and as long as the value stays finite
  (the binary32 sum of \<open>logits[i]\<close> and the bias when one boost targets it).
\<close>

theorem bias_callback_mutations:
  assumes "length logits = nat n_vocab" "i < length logits"
  shows "(token_id < 0 \<or> token_id \<ge> n_vocab \<or> (token_beg > 0 \<and> token_id \<ge> token_beg)
            \<or> \<not> isfinite (logits ! nat token_id) \<longrightarrow>
          add_bias n_vocab token_beg logits token_id bias = logits)
       \<and> (0 \<le> token_id \<and> token_id < n_vocab \<and> \<not> (token_beg > 0 \<and> token_id \<ge> token_beg)
            \<and> isfinite (logits ! nat token_id) \<longrightarrow>
          add_bias n_vocab token_beg logits token_id bias
            = logits[nat token_id := fadd (logits ! nat token_id) bias])
       \<and> length (fst (whisper_logits_filter_cb n_vocab token_beg tokens logits bctx)) = length logits
       \<and> (token_beg > 0 \<and> int i \<ge> token_beg \<longrightarrow>
          fst (whisper_logits_filter_cb n_vocab token_beg tokens logits bctx) ! i = logits ! i)
       \<and> (\<not> isfinite (logits ! i) \<longrightarrow>
          fst (whisper_logits_filter_cb n_vocab token_beg tokens logits bctx) ! i = logits ! i)
       \<and> (fst (whisper_logits_filter_cb n_vocab token_beg tokens logits bctx) ! i \<noteq> logits ! i \<longrightarrow>
          isfinite (logits ! i) \<and> int i \<in> set (fst (boost_plan tokens bctx))
          \<and> fst (whisper_logits_filter_cb n_vocab token_beg tokens logits bctx) ! i
              = (boost_once (snd (boost_plan tokens bctx))
                   ^^ count_list (fst (boost_plan tokens bctx)) (int i)) (logits ! i))
       \<and> (fst (whisper_logits_filter_cb n_vocab token_beg tokens logits bctx) ! i \<noteq> logits ! i
            \<and> count_list (fst (boost_plan tokens bctx)) (int i) = 1 \<longrightarrow>
          fst (whisper_logits_filter_cb n_vocab token_beg tokens logits bctx) ! i
              = fadd (logits ! i) (snd (boost_plan tokens bctx)))"
proof -
  define cb where "cb = fst (whisper_logits_filter_cb n_vocab token_beg tokens logits bctx)"
  define ts where "ts = fst (boost_plan tokens bctx)"
  define b where "b = snd (boost_plan tokens bctx)"
  have char: "cb ! i = logits ! i \<or>
      (\<not> (token_beg > 0 \<and> int i \<ge> token_beg)
       \<and> cb ! i = (boost_once b ^^ count_list ts (int i)) (logits ! i))"
  proof (cases "b_enabled bctx \<and> n_vocab > 0")
    case True
    then show ?thesis
      using nth_foldl_add_bias [OF assms, of token_beg b ts]
      by (simp add: filter_cb_plan cb_def ts_def b_def)
  next
    case False
    then show ?thesis using filter_cb_disabled [of bctx n_vocab token_beg tokens logits]
      by (auto simp: cb_def)
  qed
  have len: "length cb = length logits"
  proof (cases "b_enabled bctx \<and> n_vocab > 0")
    case True
    then show ?thesis by (simp add: filter_cb_plan cb_def)
  next
    case False
    then show ?thesis using filter_cb_disabled [of bctx n_vocab token_beg tokens logits]
      by (auto simp: cb_def)
  qed
  have g1: "token_beg > 0 \<and> int i \<ge> token_beg \<longrightarrow> cb ! i = logits ! i"
    using char by auto
  have g2: "\<not> isfinite (logits ! i) \<longrightarrow> cb ! i = logits ! i"
    using char by (auto simp: boost_once_funpow_nonfinite)
  have g3: "cb ! i \<noteq> logits ! i \<longrightarrow>
          isfinite (logits ! i) \<and> int i \<in> set ts
          \<and> cb ! i = (boost_once b ^^ count_list ts (int i)) (logits ! i)"
  proof
    assume ne: "cb ! i \<noteq> logits ! i"
    then have e: "cb ! i = (boost_once b ^^ count_list ts (int i)) (logits ! i)"
      using char by auto
    then have fp: "isfinite (logits ! i) \<and> count_list ts (int i) > 0"
      using ne boost_once_funpow_zero_or_finite [where b = b and k = "count_list ts (int i)" and v = "logits ! i"]
      by auto
    show "isfinite (logits ! i) \<and> int i \<in> set ts
          \<and> cb ! i = (boost_once b ^^ count_list ts (int i)) (logits ! i)"
      using e fp by (cases "int i \<in> set ts") simp_all
  qed
  have g4: "cb ! i \<noteq> logits ! i \<and> count_list ts (int i) = 1 \<longrightarrow>
          cb ! i = fadd (logits ! i) b"
    using g3 by (auto simp: boost_once_def)
  have a1: "token_id < 0 \<or> token_id \<ge> n_vocab \<or> (token_beg > 0 \<and> token_id \<ge> token_beg)
            \<or> \<not> isfinite (logits ! nat token_id) \<longrightarrow>
          add_bias n_vocab token_beg logits token_id bias = logits"
    using add_bias_guarded by blast
  have a2: "0 \<le> token_id \<and> token_id < n_vocab \<and> \<not> (token_beg > 0 \<and> token_id \<ge> token_beg)
            \<and> isfinite (logits ! nat token_id) \<longrightarrow>
          add_bias n_vocab token_beg logits token_id bias
            = logits[nat token_id := fadd (logits ! nat token_id) bias]"
    by (auto simp: add_bias_def)
  show ?thesis
    using a1 a2 len g1 g2 g3 g4 unfolding cb_def ts_def b_def by blast
qed

text \<open>The theorem at a vocabulary of 4 tokens with \<open>token_beg = 2\<close> and the prefix \<open>[7]\<close>: the
  sequences \<open>[7, 1]\<close> and \<open>[7, 2]\<close> match, token 1 is boosted by \<open>0.85f\<close> once, which gives the
  binary32 number \<open>15518925 / 2^23\<close>, and token 2, in the protected range, is not; the
  non-finite entry stays.\<close>

theorem bias_callback_mutations_witness:
  "length [Fin 0, Fin 1, Fin 5, MInf] = nat 4 \<and> (1 :: nat) < length [Fin 0, Fin 1, Fin 5, MInf]
   \<and> boost_plan [7] bctx_example = ([1, 2], round32 0.85)
   \<and> fst (whisper_logits_filter_cb 4 2 [7] [Fin 0, Fin 1, Fin 5, MInf] bctx_example)
       = [Fin 0, Fin (15518925 / 2 ^ 23), Fin 5, MInf]
   \<and> fst (whisper_logits_filter_cb 4 2 [7] [Fin 0, Fin 1, Fin 5, MInf] bctx_example) ! 1
       = fadd (Fin 1) (round32 0.85)
   \<and> fst (whisper_logits_filter_cb 4 2 [7] [Fin 0, Fin 1, Fin 5, MInf] bctx_example) ! 1
       \<noteq> [Fin 0, Fin 1, Fin 5, MInf] ! 1"
proof -
  have p: "boost_plan [7] bctx_example = ([1, 2], round32 0.85)"
    by (simp add: bctx_example_def boost_plan_def continuation_targets_def seq_target_def)
  have v: "fst (whisper_logits_filter_cb 4 2 [7] [Fin 0, Fin 1, Fin 5, MInf] bctx_example)
       = [Fin 0, Fin (15518925 / 2 ^ 23), Fin 5, MInf]"
    by code_simp
  have n: "Fin (15518925 / 2 ^ 23) \<noteq> Fin 1"
    by simp
  have c: "count_list (fst (boost_plan [7] bctx_example)) (int 1) = 1"
    by (simp add: p)
  have "fst (whisper_logits_filter_cb 4 2 [7] [Fin 0, Fin 1, Fin 5, MInf] bctx_example) ! 1
          \<noteq> [Fin 0, Fin 1, Fin 5, MInf] ! 1
        \<and> count_list (fst (boost_plan [7] bctx_example)) (int 1) = 1 \<longrightarrow>
        fst (whisper_logits_filter_cb 4 2 [7] [Fin 0, Fin 1, Fin 5, MInf] bctx_example) ! 1
          = fadd ([Fin 0, Fin 1, Fin 5, MInf] ! 1) (snd (boost_plan [7] bctx_example))"
    using bias_callback_mutations [of "[Fin 0, Fin 1, Fin 5, MInf]" 4 1 1 2 "Fin 1" "[7]" bctx_example]
    by simp
  then have e: "fst (whisper_logits_filter_cb 4 2 [7] [Fin 0, Fin 1, Fin 5, MInf] bctx_example) ! 1
          = fadd (Fin 1) (round32 0.85)"
    using c n by (simp add: v p)
  show ?thesis
    using p v e n by simp
qed

section \<open>Segment events of a decode and of a flush\<close>


lemma emit_transcription_frame [simp]:
  "pre_roll (emit_transcription E P a i st f avg q s) = pre_roll s"
  "chunk_buffer (emit_transcription E P a i st f avg q s) = chunk_buffer s"
  "current_segment (emit_transcription E P a i st f avg q s) = current_segment s"
  "segment_prob_sum (emit_transcription E P a i st f avg q s) = segment_prob_sum s"
  "segment_prob_count (emit_transcription E P a i st f avg q s) = segment_prob_count s"
  "in_segment (emit_transcription E P a i st f avg q s) = in_segment s"
  "segment_start_sample (emit_transcription E P a i st f avg q s) = segment_start_sample s"
  "last_voice_sample (emit_transcription E P a i st f avg q s) = last_voice_sample s"
  "processed_samples_total (emit_transcription E P a i st f avg q s) = processed_samples_total s"
  "segment_index (emit_transcription E P a i st f avg q s) = segment_index s"
  "active_segment_index (emit_transcription E P a i st f avg q s) = active_segment_index s"
  "partial_sequence (emit_transcription E P a i st f avg q s) = partial_sequence s"
  "last_partial_emit_sample (emit_transcription E P a i st f avg q s) = last_partial_emit_sample s"
  by (simp_all add: emit_transcription_def reload_dictionary_def Let_def split: prod.splits)

lemma reload_dictionary_segment_events [simp]:
  "segment_events (reload_dictionary E P i q f force s) = segment_events s"
proof -
  have "\<And>e. is_dictionary e \<Longrightarrow> \<not> is_segment e" by (case_tac e) auto
  then have "filter is_segment (fst (snd (reload_dictionary_if_needed E P
               (poll_dict E (reload_calls s)) i q f force (dict s)))) = []"
    using reload_if_needed_events [of E P "poll_dict E (reload_calls s)" i q f force "dict s"]
    by (auto simp: filter_empty_conv)
  then show ?thesis
    by (auto simp: reload_dictionary_def segment_events_def split: prod.splits)
qed

lemma segment_event_fields [simp]:
  "is_segment (segment_event E r a i st f avg q)"
  "segment_final (segment_event E r a i st f avg q) = f"
  "segment_partial_seq (segment_event E r a i st f avg q) = q"
  "segment_avg_vad (segment_event E r a i st f avg q) = avg"
  "segment_duration_ms (segment_event E r a i st f avg q)
     = max 0 (cdiv (int (length a) * 1000) sample_rate)"
  by (simp_all add: segment_event_def Let_def)

lemma emit_transcription_segment_events:
  "segment_events (emit_transcription E P a i st f avg q s) =
     segment_events s @
       (if a \<noteq> [] \<and> wr_status (decode_result E P a i f q s) = 0
        then [segment_event E (decode_result E P a i f q s) a i st f avg q] else [])"
proof (cases "a = []")
  case True
  then show ?thesis by (simp add: emit_transcription_def)
next
  case False
  define s1 where "s1 = reload_dictionary E P i q f False s"
  have s1: "segment_events s1 = segment_events s" "decode_calls s1 = decode_calls s"
    "warned_beam_size_clamp s1 = warned_beam_size_clamp s"
    by (simp_all add: s1_def)
  have lg: "\<And>xs. filter is_segment (map Logits xs) = []"
    by (simp add: filter_empty_conv)
  show ?thesis
    using False s1 lg
    by (simp add: emit_transcription_def Let_def s1_def [symmetric] decode_result_def
        segment_events_def split: prod.splits)
qed


section \<open>The flush of an utterance\<close>


lemma keep_samples_natural: "keep_samples P False s = natural_keep P s"
  by (simp add: keep_samples_def natural_keep_def Let_def min_def max_def)

lemma flush_segment_in_segment [simp]: "\<not> in_segment (flush_segment E P forced s)"
  by (simp add: flush_segment_def Let_def)

lemma segment_events_update [simp]:
  "segment_events (s\<lparr>pending_samples := x1\<rparr>) = segment_events s"
  "segment_events (s\<lparr>pre_roll := x2\<rparr>) = segment_events s"
  "segment_events (s\<lparr>chunk_buffer := x3\<rparr>) = segment_events s"
  "segment_events (s\<lparr>current_segment := x4\<rparr>) = segment_events s"
  "segment_events (s\<lparr>segment_prob_sum := x5\<rparr>) = segment_events s"
  "segment_events (s\<lparr>segment_prob_count := x6\<rparr>) = segment_events s"
  "segment_events (s\<lparr>in_segment := x7\<rparr>) = segment_events s"
  "segment_events (s\<lparr>segment_start_sample := x8\<rparr>) = segment_events s"
  "segment_events (s\<lparr>last_voice_sample := x9\<rparr>) = segment_events s"
  "segment_events (s\<lparr>processed_samples_total := x10\<rparr>) = segment_events s"
  "segment_events (s\<lparr>segment_index := x11\<rparr>) = segment_events s"
  "segment_events (s\<lparr>active_segment_index := x12\<rparr>) = segment_events s"
  "segment_events (s\<lparr>partial_sequence := x13\<rparr>) = segment_events s"
  "segment_events (s\<lparr>last_partial_emit_sample := x14\<rparr>) = segment_events s"
  "segment_events (s\<lparr>vad_calls := x15\<rparr>) = segment_events s"
  "segment_events (s\<lparr>stderr := x16\<rparr>) = segment_events s"
  "segment_events (s\<lparr>last_fetch_time_ms := x17\<rparr>) = segment_events s"
  by (simp_all add: segment_events_def)

lemma decode_result_update [simp]:
  "decode_result E P a i f q (s\<lparr>stderr := x\<rparr>) = decode_result E P a i f q s"
  by (simp add: decode_result_def reload_dictionary_def split: prod.splits)

lemma flush_segment_segment_events:
  "segment_events (flush_segment E P forced s) =
     segment_events s @ (if final_emitted E P forced s then [final_event E P forced s] else [])"
proof (cases "in_segment s \<and> current_segment s \<noteq> [] \<and> \<not> keep_samples P forced s < min_segment_samples P")
  case False
  then show ?thesis
    by (auto simp: flush_segment_def Let_def final_emitted_def)
next
  case True
  then have "flush_segment E P forced s =
      (emit_transcription E P (take (keep_samples P forced s) (current_segment s))
         (utterance_index s) (segment_start_sample s) True (avg_prob s) (partial_sequence s) s)
      \<lparr>pre_roll := push_pre_roll (pre_padding_samples P) []
          (if keep_samples P forced s < length (current_segment s)
           then drop (keep_samples P forced s) (current_segment s) else []),
        current_segment := [], segment_prob_sum := 0, segment_prob_count := 0,
        in_segment := False, partial_sequence := 0, last_partial_emit_sample := 0,
        active_segment_index := -1, segment_index := segment_index s + 1,
        segment_start_sample := processed_samples_total s,
        last_voice_sample := processed_samples_total s\<rparr>"
    by (simp add: flush_segment_def Let_def utterance_index_def avg_prob_def)
  then show ?thesis
    using True
    by (simp add: emit_transcription_segment_events final_emitted_def final_event_def
        final_result_def)
qed

lemma final_event_fields [simp]:
  "is_segment (final_event E P forced s)"
  "segment_final (final_event E P forced s)"
  "segment_partial_seq (final_event E P forced s) = partial_sequence s"
  "segment_avg_vad (final_event E P forced s) = avg_prob s"
  by (simp_all add: final_event_def)

lemma flush_segment_discard:
  assumes "in_segment s" "current_segment s \<noteq> []"
    "keep_samples P forced s < min_segment_samples P"
  shows "stdout (flush_segment E P forced s) = stdout s"
    and "decode_calls (flush_segment E P forced s) = decode_calls s"
  using assms by (simp_all add: flush_segment_def Let_def)

lemma emit_transcription_decode_calls:
  "decode_calls (emit_transcription E P a i st f avg q s)
     = decode_calls s + (if a = [] then 0 else 1)"
  by (simp add: emit_transcription_def reload_dictionary_def Let_def split: prod.splits)

lemma flush_segment_decodes:
  assumes "in_segment s" "current_segment s \<noteq> []"
    "\<not> keep_samples P forced s < min_segment_samples P" "0 < keep_samples P forced s"
  shows "decode_calls (flush_segment E P forced s) = Suc (decode_calls s)"
  using assms by (simp add: flush_segment_def Let_def emit_transcription_decode_calls)




section \<open>The frames of a padded file\<close>

lemma frames_short: "length xs < 512 \<Longrightarrow> frames xs = []"
  by (simp add: frames_def)

lemma frames_step:
  assumes "512 \<le> length xs"
  shows "frames xs = take 512 xs # frames (drop 512 xs)"
proof -
  have d: "length xs div 512 = Suc ((length xs - 512) div 512)"
    using assms by (simp add: le_div_geq)
  have "[0..<Suc ((length xs - 512) div 512)] = 0 # map Suc [0..<(length xs - 512) div 512]"
    by (simp add: upt_conv_Cons map_Suc_upt del: upt_Suc)
  then show ?thesis
    by (simp add: frames_def d o_def add.commute del: upt_Suc)
qed

lemma length_frames [simp]: "length (frames xs) = length xs div 512"
  by (simp add: frames_def)

lemma concat_frames_mult: "length xs = 512 * n \<Longrightarrow> concat (frames xs) = xs"
proof (induction n arbitrary: xs)
  case 0
  then show ?case by (simp add: frames_short)
next
  case (Suc n)
  have ge: "512 \<le> length xs" using Suc.prems by simp
  have "length (drop 512 xs) = 512 * n" using Suc.prems by simp
  then have "concat (frames (drop 512 xs)) = drop 512 xs" by (rule Suc.IH)
  then show ?case by (simp add: frames_step [OF ge])
qed

lemma vad_lines_update [simp]:
  "vad_lines (s\<lparr>pending_samples := x1\<rparr>) = vad_lines s"
  "vad_lines (s\<lparr>pre_roll := x2\<rparr>) = vad_lines s"
  "vad_lines (s\<lparr>chunk_buffer := x3\<rparr>) = vad_lines s"
  "vad_lines (s\<lparr>current_segment := x4\<rparr>) = vad_lines s"
  "vad_lines (s\<lparr>segment_prob_sum := x5\<rparr>) = vad_lines s"
  "vad_lines (s\<lparr>segment_prob_count := x6\<rparr>) = vad_lines s"
  "vad_lines (s\<lparr>in_segment := x7\<rparr>) = vad_lines s"
  "vad_lines (s\<lparr>segment_start_sample := x8\<rparr>) = vad_lines s"
  "vad_lines (s\<lparr>last_voice_sample := x9\<rparr>) = vad_lines s"
  "vad_lines (s\<lparr>processed_samples_total := x10\<rparr>) = vad_lines s"
  "vad_lines (s\<lparr>segment_index := x11\<rparr>) = vad_lines s"
  "vad_lines (s\<lparr>active_segment_index := x12\<rparr>) = vad_lines s"
  "vad_lines (s\<lparr>partial_sequence := x13\<rparr>) = vad_lines s"
  "vad_lines (s\<lparr>last_partial_emit_sample := x14\<rparr>) = vad_lines s"
  "vad_lines (s\<lparr>vad_calls := x15\<rparr>) = vad_lines s"
  "vad_lines (s\<lparr>stderr := x16\<rparr>) = vad_lines s"
  "vad_lines (s\<lparr>last_fetch_time_ms := x17\<rparr>) = vad_lines s"
  by (simp_all add: vad_lines_def)

lemma reload_dictionary_vad_lines [simp]:
  "vad_lines (reload_dictionary E P i q f force s) = vad_lines s"
proof -
  have "\<And>e. is_dictionary e \<Longrightarrow> \<not> is_vad e" by (case_tac e) auto
  then have "filter is_vad (fst (snd (reload_dictionary_if_needed E P
               (poll_dict E (reload_calls s)) i q f force (dict s)))) = []"
    using reload_if_needed_events [of E P "poll_dict E (reload_calls s)" i q f force "dict s"]
    by (auto simp: filter_empty_conv)
  then show ?thesis
    by (auto simp: reload_dictionary_def vad_lines_def split: prod.splits)
qed

lemma emit_transcription_vad_lines [simp]:
  "vad_lines (emit_transcription E P a i st f avg q s) = vad_lines s"
proof (cases "a = []")
  case True
  then show ?thesis by (simp add: emit_transcription_def)
next
  case False
  have lg: "\<And>xs. filter is_vad (map Logits xs) = []" by (simp add: filter_empty_conv)
  have sg: "\<And>r. \<not> is_vad (segment_event E r a i st f avg q)"
    by (simp add: segment_event_def Let_def)
  have "vad_lines (reload_dictionary E P i q f False s) = vad_lines s" by simp
  then show ?thesis
    using False lg sg
    by (simp add: emit_transcription_call(1) vad_lines_def)
qed

lemma flush_segment_vad_lines [simp]:
  "vad_lines (flush_segment E P forced s) = vad_lines s"
  by (simp add: flush_segment_def Let_def)

lemma flush_segment_processed [simp]:
  "processed_samples_total (flush_segment E P forced s) = processed_samples_total s"
  by (simp add: flush_segment_def Let_def)

lemma block_vad_lines [simp]:
  "vad_lines (start_segment P prob s) = vad_lines s"
  "vad_lines (append_chunk P prob s) = vad_lines s"
  "vad_lines (pre_roll_chunk P s) = vad_lines s"
  "vad_lines (pop_chunk s) = vad_lines s"
  by (simp_all add: start_segment_def append_chunk_def pre_roll_chunk_def pop_chunk_def Let_def)

lemma block_processed [simp]:
  "processed_samples_total (start_segment P prob s) = processed_samples_total s"
  "processed_samples_total (append_chunk P prob s) = processed_samples_total s"
  "processed_samples_total (pre_roll_chunk P s) = processed_samples_total s"
  "processed_samples_total (pop_chunk s) = processed_samples_total s"
  "processed_samples_total (count_chunk P prob s) = processed_samples_total s + 512"
  by (simp_all add: start_segment_def append_chunk_def pre_roll_chunk_def pop_chunk_def
      count_chunk_def vad_chunk_samples_def Let_def)

lemma emit_partial_vad_lines [simp]:
  "vad_lines (emit_partial E P s) = vad_lines s"
  "processed_samples_total (emit_partial E P s) = processed_samples_total s"
  by (simp_all add: emit_partial_def Let_def)

lemma end_of_segment_vad_lines [simp]:
  "vad_lines (end_of_segment E P prob s) = vad_lines s"
  "processed_samples_total (end_of_segment E P prob s) = processed_samples_total s"
  by (simp_all add: end_of_segment_def)

lemma segment_chunk_vad_lines [simp]:
  "vad_lines (segment_chunk E P prob s) = vad_lines s"
  "processed_samples_total (segment_chunk E P prob s) = processed_samples_total s"
  by (simp_all add: segment_chunk_def)

lemma count_chunk_vad_lines:
  "vad_lines (count_chunk P prob s) =
     vad_lines s @
       (if emit_vad_events P
        then [Vad (cdiv ((processed_samples_total s + 512) * 1000) sample_rate) prob 512 sample_rate]
        else [])"
  by (simp add: count_chunk_def chunk_end_ms_def Let_def vad_chunk_samples_def vad_lines_def)

lemma process_chunk_vad_lines:
  "vad_lines (process_chunk E P s) =
     vad_lines s @
       (case vad_infer E (vad_calls s) (take 512 (pending_samples s)) of
          None \<Rightarrow> []
        | Some prob \<Rightarrow>
            if emit_vad_events P
            then [Vad (cdiv ((processed_samples_total s + 512) * 1000) sample_rate) prob 512
                    sample_rate]
            else [])"
  by (simp add: process_chunk_def count_chunk_vad_lines vad_chunk_samples_def
      split: option.splits)

lemma process_chunk_processed:
  "processed_samples_total (process_chunk E P s) =
     processed_samples_total s +
       (case vad_infer E (vad_calls s) (take 512 (pending_samples s)) of
          None \<Rightarrow> 0 | Some prob \<Rightarrow> 512)"
  by (simp add: process_chunk_def vad_chunk_samples_def split: option.splits)


lemma process_pending_chunks_trace:
  "vad_lines (process_pending_chunks E P s) =
     vad_lines s @
       (if emit_vad_events P
        then vad_trace E (vad_calls s) (processed_samples_total s) (frames (pending_samples s))
        else [])
   \<and> processed_samples_total (process_pending_chunks E P s) =
       processed_samples_total s
         + 512 * int (frames_inferred E (vad_calls s) (frames (pending_samples s)))"
proof (induction E P s rule: process_pending_chunks.induct)
  case (1 E P s)
  show ?case
  proof (cases "vad_chunk_samples \<le> length (pending_samples s)")
    case False
    then show ?thesis
      by (simp add: process_pending_chunks_done frames_short vad_chunk_samples_def)
  next
    case True
    then have ge: "512 \<le> length (pending_samples s)" by (simp add: vad_chunk_samples_def)
    have p: "pending_samples (process_chunk E P s) = drop 512 (pending_samples s)"
      by (simp add: vad_chunk_samples_def)
    show ?thesis
      using 1 [OF True]
      by (auto simp: process_pending_chunks_step [OF True] frames_step [OF ge]
          process_chunk_vad_lines process_chunk_processed vad_chunk_samples_def
          split: option.splits)
  qed
qed

lemma pad_pending_padded:
  "pending_samples (pad_pending s) = padded (pending_samples s)"
proof (cases "length (pending_samples s) mod 512 = 0")
  case True
  then show ?thesis by (simp add: pad_pending_def padded_def vad_chunk_samples_def)
next
  case False
  then have "(512 - length (pending_samples s) mod 512) mod 512
               = 512 - length (pending_samples s) mod 512"
    by simp
  then show ?thesis using False
    by (simp add: pad_pending_def padded_def vad_chunk_samples_def Let_def)
qed

lemma length_padded: "length (padded pcm) = 512 * ((length pcm + 511) div 512)"
  using pad_pending_padded [of "init_pipeline\<lparr>pending_samples := pcm\<rparr>"]
    pad_pending_length [of "init_pipeline\<lparr>pending_samples := pcm\<rparr>"]
  by (simp add: vad_chunk_samples_def)

lemma frames_padded:
  "length (frames (padded pcm)) = (length pcm + 511) div 512"
  "concat (frames (padded pcm)) = padded pcm"
  using length_padded [of pcm] by (simp_all add: concat_frames_mult)

lemma push_pre_roll_drop:
  "length pre \<le> cap \<Longrightarrow>
   push_pre_roll cap pre xs = drop (length pre + length xs - cap) (pre @ xs)"
proof (induction xs arbitrary: pre)
  case Nil
  then show ?case by simp
next
  case (Cons x xs)
  show ?case
  proof (cases "length (pre @ [x]) > cap")
    case True
    then have l: "length pre = cap" using Cons.prems by simp
    have t: "tl (pre @ [x]) @ xs = drop 1 (pre @ x # xs)"
      by (cases pre) (simp_all add: drop_Suc)
    have lt: "length (tl (pre @ [x])) = cap" using l by simp
    then have "length (tl (pre @ [x])) \<le> cap" by simp
    from Cons.IH [OF this] have
      "push_pre_roll cap (tl (pre @ [x])) xs
         = drop (length (tl (pre @ [x])) + length xs - cap) (tl (pre @ [x]) @ xs)" .
    also have "length (tl (pre @ [x])) + length xs - cap = length xs"
      unfolding lt by simp
    also have "drop (length xs) (tl (pre @ [x]) @ xs) = drop (length xs + 1) (pre @ x # xs)"
      unfolding t by (simp only: drop_drop)
    also have "length xs + 1 = length pre + length (x # xs) - cap"
      unfolding l by simp
    finally have "push_pre_roll cap (tl (pre @ [x])) xs
         = drop (length pre + length (x # xs) - cap) (pre @ x # xs)" .
    moreover have "push_pre_roll cap pre (x # xs) = push_pre_roll cap (tl (pre @ [x])) xs"
      using True by simp
    ultimately show ?thesis by simp
  next
    case False
    then have "length (pre @ [x]) \<le> cap" by simp
    from Cons.IH [OF this] show ?thesis using False by simp
  qed
qed

lemma length_push_pre_roll: "length pre \<le> cap \<Longrightarrow> length (push_pre_roll cap pre xs) \<le> cap"
  by (simp add: push_pre_roll_drop)

lemma push_pre_roll_append:
  "push_pre_roll cap pre (xs @ ys) = push_pre_roll cap (push_pre_roll cap pre xs) ys"
  by (induction xs arbitrary: pre) simp_all

lemma process_chunk_silent_pre_roll:
  assumes "silent E P" "\<not> in_segment s"
  shows "pre_roll (process_chunk E P s) =
           push_pre_roll (pre_padding_samples P) (pre_roll s) (take 512 (pending_samples s))"
proof -
  obtain p where p: "vad_infer E (vad_calls s) (take vad_chunk_samples (pending_samples s)) = Some p"
    "p < start_threshold P"
    using assms(1) unfolding silent_def by blast
  have "process_chunk E P s = pre_roll_chunk P (count_chunk P p (pop_chunk s))"
    using p assms(2)
    by (simp add: process_chunk_def segment_chunk_def count_chunk_def pop_chunk_def Let_def)
  then show ?thesis
    by (simp add: pre_roll_chunk_def count_chunk_def pop_chunk_def Let_def vad_chunk_samples_def)
qed

lemma process_pending_chunks_silent_pre_roll:
  "silent E P \<Longrightarrow> \<not> in_segment s \<Longrightarrow>
   pre_roll (process_pending_chunks E P s) =
     push_pre_roll (pre_padding_samples P) (pre_roll s) (concat (frames (pending_samples s)))"
proof (induction E P s rule: process_pending_chunks.induct)
  case (1 E P s)
  show ?case
  proof (cases "vad_chunk_samples \<le> length (pending_samples s)")
    case False
    then show ?thesis
      by (simp add: process_pending_chunks_done frames_short vad_chunk_samples_def)
  next
    case True
    then have ge: "512 \<le> length (pending_samples s)" by (simp add: vad_chunk_samples_def)
    have p: "pending_samples (process_chunk E P s) = drop 512 (pending_samples s)"
      by (simp add: vad_chunk_samples_def)
    note pc = process_chunk_silent(1) [OF 1(2) 1(3)]
    show ?thesis
      using 1(1) [OF True 1(2) pc]
      by (simp add: process_pending_chunks_step [OF True] frames_step [OF ge]
          process_chunk_silent_pre_roll [OF 1(2) 1(3)] push_pre_roll_append
          vad_chunk_samples_def)
  qed
qed


lemma frames_inferred_all:
  "\<forall>n fr. vad_infer E n fr \<noteq> None \<Longrightarrow> frames_inferred E n frs = length frs"
proof (induction frs arbitrary: n)
  case Nil
  then show ?case by simp
next
  case (Cons fr frs)
  then obtain p where "vad_infer E n fr = Some p" by blast
  then show ?case using Cons by simp
qed

lemma padded_zeros: "\<exists>k < 512. padded pcm = pcm @ replicate k 0"
  by (intro exI [of _ "(512 - length pcm mod 512) mod 512"]) (simp add: padded_def)

lemma startup_fields:
  "vad_lines (startup E P) = []" "processed_samples_total (startup E P) = 0"
  "pre_roll (startup E P) = []"
  using startup_quiet(3) [of E P]
  by (simp_all add: vad_lines_def vad_events_def startup_def init_pipeline_def
      reload_dictionary_def split: prod.splits)

lemma run_audio_file_trace:
  assumes "pending_samples s = []"
  shows "vad_lines (run_audio_file E P pcm s) =
           vad_lines s @
             (if emit_vad_events P
              then vad_trace E (vad_calls s) (processed_samples_total s) (frames (padded pcm))
              else [])"
    and "processed_samples_total (run_audio_file E P pcm s) =
           processed_samples_total s
             + 512 * int (frames_inferred E (vad_calls s) (frames (padded pcm)))"
proof -
  define s1 where "s1 = pad_pending (s\<lparr>pending_samples := pending_samples s @ pcm\<rparr>)"
  have f: "pending_samples s1 = padded pcm" "vad_lines s1 = vad_lines s"
    "vad_calls s1 = vad_calls s" "processed_samples_total s1 = processed_samples_total s"
    using assms by (simp_all add: s1_def pad_pending_padded) (simp_all add: pad_pending_def Let_def)
  show "vad_lines (run_audio_file E P pcm s) =
           vad_lines s @
             (if emit_vad_events P
              then vad_trace E (vad_calls s) (processed_samples_total s) (frames (padded pcm))
              else [])"
    using process_pending_chunks_trace [of E P s1] f
    by (simp add: run_audio_file_def s1_def [symmetric])
  show "processed_samples_total (run_audio_file E P pcm s) =
           processed_samples_total s
             + 512 * int (frames_inferred E (vad_calls s) (frames (padded pcm)))"
    using process_pending_chunks_trace [of E P s1] f
    by (simp add: run_audio_file_def s1_def [symmetric])
qed

lemma main_offline_silent_pre_roll:
  assumes "silent E P"
  shows "pre_roll (main_offline E P pcm) =
           drop (length (padded pcm) - pre_padding_samples P) (padded pcm)"
proof -
  define s1 where
    "s1 = pad_pending ((startup E P)\<lparr>pending_samples := pending_samples (startup E P) @ pcm\<rparr>)"
  have f: "pending_samples s1 = padded pcm" "\<not> in_segment s1" "pre_roll s1 = []"
    using startup_quiet(1,4) [of E P] startup_fields(3) [of E P]
    by (simp_all add: s1_def pad_pending_padded) (simp_all add: pad_pending_def Let_def)
  note pp = process_pending_chunks_silent_pre_roll [OF assms f(2)]
  have ina: "\<not> in_segment (process_pending_chunks E P s1)"
    using process_pending_chunks_silent [OF assms f(2)] by simp
  have "pre_roll (main_offline E P pcm) = pre_roll (process_pending_chunks E P s1)"
    using ina by (simp add: main_offline_def run_audio_file_def s1_def [symmetric] flush_segment_def)
  then show ?thesis
    using pp f by (simp add: frames_padded push_pre_roll_drop)
qed


lemma upt_2: "[0..<2] = [0, 1]"
  by (simp add: upt_rec)

lemma frames_example:
  "frames (padded (replicate 600 1)) = [replicate 512 1, replicate 88 1 @ replicate 424 0]"
  by (simp add: frames_def padded_def upt_2)


section \<open>The events of one utterance\<close>

lemma partial_seqs_append [simp]:
  "partial_seqs (xs @ ys) = partial_seqs xs @ partial_seqs ys"
  by (simp add: partial_seqs_def)

lemma final_events_append [simp]:
  "final_events (xs @ ys) = final_events xs @ final_events ys"
  by (simp add: final_events_def)

lemma partial_seqs_Nil [simp]: "partial_seqs [] = []"
  by (simp add: partial_seqs_def)

lemma final_events_Nil [simp]: "final_events [] = []"
  by (simp add: final_events_def)

lemma partial_seqs_single:
  "is_segment e \<Longrightarrow> partial_seqs [e] = (if segment_final e then [] else [segment_partial_seq e])"
  by (simp add: partial_seqs_def)

lemma final_events_single:
  "is_segment e \<Longrightarrow> final_events [e] = (if segment_final e then [e] else [])"
  by (simp add: final_events_def)

lemma utt_inv_opened: "utt_inv allok [] 0 True"
  by (simp add: utt_inv_def)

lemma utt_inv_partial:
  assumes "utt_inv allok evs n True" "is_segment e" "\<not> segment_final e" "segment_partial_seq e = n"
  shows "utt_inv allok (evs @ [e]) (n + 1) True"
proof -
  have s: "sorted_wrt (<) (partial_seqs evs @ [n])"
    using assms(1) by (auto simp: utt_inv_def sorted_wrt_append)
  show ?thesis
    using assms s
    by (auto simp: utt_inv_def partial_seqs_single final_events_single)
qed

lemma utt_inv_failed:
  "utt_inv allok evs n True \<Longrightarrow> \<not> allok \<Longrightarrow> utt_inv allok evs (n + 1) True"
  by (auto simp: utt_inv_def)

lemma utt_inv_final:
  assumes "utt_inv allok evs n True" "is_segment f" "segment_final f" "segment_partial_seq f = n"
  shows "utt_inv allok (evs @ [f]) m False"
  using assms by (auto simp: utt_inv_def partial_seqs_single final_events_single)

lemma utt_inv_ended:
  "utt_inv allok evs n True \<Longrightarrow> utt_inv allok evs m False"
  by (auto simp: utt_inv_def)

lemma utt_inv_over:
  "utt_inv allok evs n False \<Longrightarrow> utt_inv allok evs m False"
  by (auto simp: utt_inv_def)

lemma block_segment_events [simp]:
  "segment_events (append_chunk P prob s) = segment_events s"
  "segment_events (pop_chunk s) = segment_events s"
  "segment_events (start_segment P prob s) = segment_events s"
  "segment_events (pre_roll_chunk P s) = segment_events s"
  by (simp_all add: append_chunk_def pop_chunk_def start_segment_def pre_roll_chunk_def Let_def)

lemma count_chunk_segment_events [simp]:
  "segment_events (count_chunk P prob s) = segment_events s"
  by (simp add: count_chunk_def Let_def segment_events_def)

lemma block_partial_sequence [simp]:
  "partial_sequence (append_chunk P prob s) = partial_sequence s"
  "partial_sequence (pop_chunk s) = partial_sequence s"
  "partial_sequence (count_chunk P prob s) = partial_sequence s"
  "partial_sequence (start_segment P prob s) = 0"
  by (simp_all add: append_chunk_def pop_chunk_def start_segment_def count_chunk_def Let_def)

lemma block_in_segment [simp]:
  "in_segment (append_chunk P prob s) = in_segment s"
  "in_segment (pop_chunk s) = in_segment s"
  "in_segment (count_chunk P prob s) = in_segment s"
  "in_segment (start_segment P prob s)"
  "in_segment (pre_roll_chunk P s) = in_segment s"
  by (simp_all add: append_chunk_def pop_chunk_def start_segment_def count_chunk_def
      pre_roll_chunk_def Let_def)

lemma block_buffers [simp]:
  "current_segment (append_chunk P prob s) = current_segment s @ chunk_buffer s"
  "chunk_buffer (count_chunk P prob s) = chunk_buffer s"
  "chunk_buffer (pop_chunk s) = take vad_chunk_samples (pending_samples s)"
  by (simp_all add: append_chunk_def pop_chunk_def count_chunk_def Let_def)

lemma emit_partial_fields [simp]:
  "in_segment (emit_partial E P s) = in_segment s"
  "partial_sequence (emit_partial E P s) = partial_sequence s + (if partial_due P s then 1 else 0)"
  by (simp_all add: emit_partial_def Let_def)

lemma emit_partial_segment_events:
  "segment_events (emit_partial E P s) =
     segment_events s @
       (if partial_due P s \<and> current_segment s \<noteq> [] \<and> wr_status (partial_result E P s) = 0
        then [partial_event E P s] else [])"
  by (simp add: emit_partial_def Let_def emit_transcription_segment_events partial_result_def
      partial_event_def utterance_index_def avg_prob_def)

lemma partial_event_fields [simp]:
  "is_segment (partial_event E P s)"
  "\<not> segment_final (partial_event E P s)"
  "segment_partial_seq (partial_event E P s) = partial_sequence s"
  by (simp_all add: partial_event_def)

lemma emit_partial_inv:
  assumes "utt_inv (all_decodes_ok E) evs (partial_sequence s) True" "current_segment s \<noteq> []"
  shows "\<exists>ps. segment_events (emit_partial E P s) = segment_events s @ ps
              \<and> utt_inv (all_decodes_ok E) (evs @ ps) (partial_sequence (emit_partial E P s)) True"
proof (cases "partial_due P s")
  case False
  then show ?thesis using assms by (simp add: emit_partial_segment_events)
next
  case True
  show ?thesis
  proof (cases "wr_status (partial_result E P s) = 0")
    case ok: True
    have "utt_inv (all_decodes_ok E) (evs @ [partial_event E P s]) (partial_sequence s + 1) True"
      using assms(1) by (rule utt_inv_partial) simp_all
    then show ?thesis using True ok assms(2) by (simp add: emit_partial_segment_events)
  next
    case bad: False
    then have "\<not> all_decodes_ok E"
      by (auto simp: all_decodes_ok_def partial_result_def decode_result_def)
    then have "utt_inv (all_decodes_ok E) evs (partial_sequence s + 1) True"
      using assms(1) by (simp add: utt_inv_failed)
    then show ?thesis using True bad by (simp add: emit_partial_segment_events)
  qed
qed

lemma final_stderr_update [simp]:
  "final_emitted E P forced (s\<lparr>stderr := x\<rparr>) = final_emitted E P forced s"
  "final_event E P forced (s\<lparr>stderr := x\<rparr>) = final_event E P forced s"
  by (simp_all add: final_emitted_def final_event_def final_result_def keep_samples_def
      utterance_index_def avg_prob_def Let_def)

lemma flush_segment_inv:
  assumes "utt_inv allok evs (partial_sequence s) True"
  shows "\<exists>fs. segment_events (flush_segment E P forced s) = segment_events s @ fs
              \<and> utt_inv allok (evs @ fs) m False"
proof (cases "final_emitted E P forced s")
  case True
  have "utt_inv allok (evs @ [final_event E P forced s]) m False"
    using assms by (rule utt_inv_final) simp_all
  then show ?thesis using True by (simp add: flush_segment_segment_events)
next
  case False
  then show ?thesis using assms by (simp add: flush_segment_segment_events utt_inv_ended)
qed

lemma end_of_segment_inv:
  assumes "utt_inv allok evs (partial_sequence s) True" "in_segment s"
  shows "\<exists>fs. segment_events (end_of_segment E P prob s) = segment_events s @ fs
              \<and> utt_inv allok (evs @ fs) (partial_sequence (end_of_segment E P prob s))
                    (in_segment (end_of_segment E P prob s))"
proof (cases "over_max P s \<or> silence_flush_due P s")
  case False
  then show ?thesis using assms by (simp add: end_of_segment_def)
next
  case True
  have "\<exists>forced x. end_of_segment E P prob s = flush_segment E P forced (s\<lparr>stderr := x\<rparr>)"
  proof (cases "over_max P s")
    case True
    then show ?thesis unfolding end_of_segment_def by (simp only: if_True) blast
  next
    case False
    then have "silence_flush_due P s" using True by simp
    then show ?thesis unfolding end_of_segment_def using False by (simp only: if_True if_False) blast
  qed
  then obtain forced x where e: "end_of_segment E P prob s = flush_segment E P forced (s\<lparr>stderr := x\<rparr>)"
    by blast
  have "utt_inv allok evs (partial_sequence (s\<lparr>stderr := x\<rparr>)) True" using assms(1) by simp
  from flush_segment_inv [OF this, of E P forced]
  show ?thesis unfolding e by simp
qed

lemma process_chunk_start:
  assumes "\<not> in_segment s"
    "vad_infer E (vad_calls s) (take vad_chunk_samples (pending_samples s)) = Some p"
    "p \<ge> start_threshold P"
  shows "process_chunk E P s = start_segment P p (count_chunk P p (pop_chunk s))"
  using assms by (simp add: process_chunk_def segment_chunk_def)

lemma process_chunk_active:
  assumes "in_segment s"
    "vad_infer E (vad_calls s) (take vad_chunk_samples (pending_samples s)) = Some p"
  shows "process_chunk E P s =
           end_of_segment E P p (emit_partial E P (append_chunk P p (count_chunk P p (pop_chunk s))))"
  using assms by (simp add: process_chunk_def segment_chunk_def)

lemma process_chunk_failed:
  assumes "vad_infer E (vad_calls s) (take vad_chunk_samples (pending_samples s)) = None"
  shows "process_chunk E P s = (pop_chunk s)\<lparr>stderr := stderr (pop_chunk s) @ [VadInferenceFailed]\<rparr>"
  using assms by (simp add: process_chunk_def)

lemma process_chunk_opens:
  assumes "\<not> in_segment s" "in_segment (process_chunk E P s)"
  shows "partial_sequence (process_chunk E P s) = 0"
    and "segment_events (process_chunk E P s) = segment_events s"
proof -
  have "partial_sequence (process_chunk E P s) = 0
        \<and> segment_events (process_chunk E P s) = segment_events s"
  proof (cases "vad_infer E (vad_calls s) (take vad_chunk_samples (pending_samples s))")
    case None
    then show ?thesis using assms by (simp add: process_chunk_failed)
  next
    case (Some p)
    show ?thesis
    proof (cases "p \<ge> start_threshold P")
      case True
      then show ?thesis using assms(1) Some by (simp add: process_chunk_start)
    next
      case False
      then show ?thesis using assms Some by (simp add: process_chunk_def segment_chunk_def)
    qed
  qed
  then show "partial_sequence (process_chunk E P s) = 0"
    and "segment_events (process_chunk E P s) = segment_events s" by simp_all
qed

lemma process_chunk_holds:
  assumes "utt_holds E s1 s" "in_segment s" "vad_chunk_samples \<le> length (pending_samples s)"
  shows "utt_holds E s1 (process_chunk E P s)"
proof -
  obtain evs where evs: "segment_events s = segment_events s1 @ evs"
    "utt_inv (all_decodes_ok E) evs (partial_sequence s) True"
    using assms(1,2) by (auto simp: utt_holds_def)
  show ?thesis
  proof (cases "vad_infer E (vad_calls s) (take vad_chunk_samples (pending_samples s))")
    case None
    then show ?thesis using evs assms(2) by (auto simp: process_chunk_failed utt_holds_def)
  next
    case (Some p)
    define s3 where "s3 = append_chunk P p (count_chunk P p (pop_chunk s))"
    have ne: "current_segment s3 \<noteq> []"
      using assms(3) by (auto simp: s3_def vad_chunk_samples_def)
    have f3: "segment_events s3 = segment_events s" "partial_sequence s3 = partial_sequence s"
      "in_segment s3" using assms(2) by (simp_all add: s3_def)
    from emit_partial_inv [of E evs s3 P] evs(2) ne f3(2)
    obtain ps where ps: "segment_events (emit_partial E P s3) = segment_events s3 @ ps"
      "utt_inv (all_decodes_ok E) (evs @ ps) (partial_sequence (emit_partial E P s3)) True"
      by auto
    have a4: "in_segment (emit_partial E P s3)" using f3(3) by simp
    from end_of_segment_inv [OF ps(2) a4, of E P p]
    obtain fs where fs:
      "segment_events (end_of_segment E P p (emit_partial E P s3))
         = segment_events (emit_partial E P s3) @ fs"
      "utt_inv (all_decodes_ok E) ((evs @ ps) @ fs)
         (partial_sequence (end_of_segment E P p (emit_partial E P s3)))
         (in_segment (end_of_segment E P p (emit_partial E P s3)))"
      by auto
    have pc: "process_chunk E P s = end_of_segment E P p (emit_partial E P s3)"
      using process_chunk_active [OF assms(2) Some] by (simp add: s3_def)
    show ?thesis
      unfolding utt_holds_def pc
      using fs ps(1) f3(1) evs(1) by (intro exI [of _ "(evs @ ps) @ fs"]) simp
  qed
qed

lemma flush_segment_holds:
  assumes "utt_holds E s1 s"
  shows "utt_holds E s1 (flush_segment E P forced s)"
proof (cases "in_segment s")
  case True
  obtain evs where evs: "segment_events s = segment_events s1 @ evs"
    "utt_inv (all_decodes_ok E) evs (partial_sequence s) True"
    using assms True by (auto simp: utt_holds_def)
  from flush_segment_inv [OF evs(2), of E P forced "partial_sequence (flush_segment E P forced s)"]
  obtain fs where fs: "segment_events (flush_segment E P forced s) = segment_events s @ fs"
    "utt_inv (all_decodes_ok E) (evs @ fs) (partial_sequence (flush_segment E P forced s)) False"
    by auto
  show ?thesis
    unfolding utt_holds_def using fs evs(1) by (intro exI [of _ "evs @ fs"]) simp
next
  case False
  obtain evs where evs: "segment_events s = segment_events s1 @ evs"
    "utt_inv (all_decodes_ok E) evs (partial_sequence s) False"
    using assms False by (auto simp: utt_holds_def)
  have "segment_events (flush_segment E P forced s) = segment_events s"
    using False by (simp add: flush_segment_segment_events final_emitted_def)
  then show ?thesis
    unfolding utt_holds_def using evs
    by (intro exI [of _ evs]) (simp add: utt_inv_over)
qed

lemma reset_segment_state_holds:
  assumes "utt_holds E s1 s"
  shows "utt_holds E s1 (reset_segment_state s)"
proof -
  obtain evs where evs: "segment_events s = segment_events s1 @ evs"
    "utt_inv (all_decodes_ok E) evs (partial_sequence s) (in_segment s)"
    using assms by (auto simp: utt_holds_def)
  have f: "segment_events (reset_segment_state s) = segment_events s"
    "\<not> in_segment (reset_segment_state s)"
    by (simp_all add: reset_segment_state_def segment_events_def)
  have "utt_inv (all_decodes_ok E) evs (partial_sequence (reset_segment_state s)) False"
    using evs(2) by (cases "in_segment s") (simp_all add: utt_inv_ended utt_inv_over)
  then show ?thesis
    unfolding utt_holds_def using evs(1) f by (intro exI [of _ evs]) simp
qed

lemma job_marker_holds:
  assumes "utt_holds E s1 s" "\<not> is_segment e"
  shows "utt_holds E s1 (s\<lparr>stdout := stdout s @ [e]\<rparr>)"
proof -
  have "segment_events (s\<lparr>stdout := stdout s @ [e]\<rparr>) = segment_events s"
    using assms(2) by (simp add: segment_events_def)
  then show ?thesis using assms(1) by (simp add: utt_holds_def)
qed

lemma utterance_run_holds:
  assumes "utterance_run E P s1 s'" "in_segment s1" "partial_sequence s1 = 0"
  shows "utt_holds E s1 s'"
  using assms
proof (induction rule: utterance_run.induct)
  case opened
  then show ?case by (auto simp: utt_holds_def utt_inv_opened)
next
  case (samples s' xs)
  then show ?case by (simp add: utt_holds_def)
next
  case (chunk s')
  then show ?case by (simp add: process_chunk_holds)
next
  case (flush s')
  then show ?case by (simp add: flush_segment_holds)
next
  case (reset s')
  then show ?case by (simp add: reset_segment_state_holds)
next
  case (job_start s' path)
  then show ?case by (simp add: job_marker_holds)
next
  case (job_end s' path)
  then show ?case by (simp add: job_marker_holds)
qed

end
